theory Spec2Isabelle
  imports Main
begin

section \<open>Python primitives used by \<^verbatim>\<open>talenWF/api.py\<close>\<close>

text \<open>
  Python integers are unbounded, so every position and length is an \<open>int\<close>; \<open>//\<close> by
  the positive constant 2 is floor division, which is \<open>div\<close> on \<open>int\<close>. A \<open>str\<close> is a
  \<open>string\<close>; a one-character \<open>str\<close> such as \<open>seq[i]\<close> or an entry of \<open>COMPLEMENT\<close>
  is a one-element \<open>string\<close>, since Python has no separate character type and
  \<open>upstream_bases\<close> may hold strings of any length.
\<close>

datatype exn =
    KeyError string
  | IndexError
  | AssertionError
  | NameError string
  | FileNotFoundError string
  | Exception string

text \<open>\<open>range(a, b)\<close>: the integers from \<open>a\<close> up to \<open>b - 1\<close>, empty when \<open>b \<le> a\<close>.\<close>

definition py_range :: "int \<Rightarrow> int \<Rightarrow> int list" where
  "py_range a b = [a..b - 1]"

text \<open>
  A slice bound is clamped into \<open>0..len\<close>, a negative one counting from the end first.
  \<open>s[a:b]\<close> never raises; it is empty when the clamped bounds cross.
\<close>

definition slice_bound :: "nat \<Rightarrow> int \<Rightarrow> nat" where
  "slice_bound n i = (if i < 0 then nat (max (i + int n) 0) else min (nat i) n)"

definition py_slice :: "'a list \<Rightarrow> int \<Rightarrow> int \<Rightarrow> 'a list" where
  "py_slice s a b =
     (let lo = slice_bound (length s) a; hi = slice_bound (length s) b
      in take (hi - lo) (drop lo s))"

text \<open>\<open>s[i]\<close>: a negative index counts from the end; out of range raises \<open>IndexError\<close>.\<close>

definition py_index :: "string \<Rightarrow> int \<Rightarrow> exn + string" where
  "py_index s i =
     (let n = int (length s); k = (if i < 0 then i + n else i)
      in if 0 \<le> k \<and> k < n then Inr [s ! nat k] else Inl IndexError)"

text \<open>\<open>str(n)\<close> for an integer: decimal digits, with a leading minus sign.\<close>

fun digits :: "nat \<Rightarrow> string" where
  "digits n =
     (if n < 10 then [char_of (48 + n)]
      else digits (n div 10) @ [char_of (48 + n mod 10)])"

declare digits.simps [simp del]

definition py_str :: "int \<Rightarrow> string" where
  "py_str i = (if i < 0 then CHR ''-'' # digits (nat (- i)) else digits (nat i))"

text \<open>
  \<open>str.lower()\<close> and \<open>str.upper()\<close> on the ASCII letters; every other character is
  left as it is.
\<close>

definition lower_char :: "char \<Rightarrow> char" where
  "lower_char c =
     (let n = (of_char c :: nat) in if 65 \<le> n \<and> n \<le> 90 then char_of (n + 32) else c)"

definition upper_char :: "char \<Rightarrow> char" where
  "upper_char c =
     (let n = (of_char c :: nat) in if 97 \<le> n \<and> n \<le> 122 then char_of (n - 32) else c)"

definition lower :: "string \<Rightarrow> string" where
  "lower s = map lower_char s"

definition upper :: "string \<Rightarrow> string" where
  "upper s = map upper_char s"

subsection \<open>Generators\<close>

text \<open>
  \<open>_find_tal_pairs_for_seq\<close> is a generator. Consumed to its end, it has yielded a
  list of values and then either finished or raised: the pair of the values yielded so far
  and the exception, if any. Statements in sequence are \<open>gen_then\<close>, which stops at
  the first exception; a \<open>for\<close> loop over a list is \<open>gen_for\<close>.
\<close>

type_synonym 'a gen = "'a list \<times> exn option"

definition gen_then :: "'a gen \<Rightarrow> 'a gen \<Rightarrow> 'a gen" where
  "gen_then g h =
     (case snd g of
        Some e \<Rightarrow> g
      | None \<Rightarrow> (fst g @ fst h, snd h))"

fun gen_for :: "'b list \<Rightarrow> ('b \<Rightarrow> 'a gen) \<Rightarrow> 'a gen" where
  "gen_for [] body = ([], None)"
| "gen_for (x # xs) body = gen_then (body x) (gen_for xs body)"

text \<open>\<open>yield f(...)\<close>: an exception raised while computing the value ends the generator.\<close>

definition gen_yield :: "exn + 'a \<Rightarrow> 'a gen" where
  "gen_yield v = (case v of Inl e \<Rightarrow> ([], Some e) | Inr x \<Rightarrow> ([x], None))"

section \<open>The module \<^verbatim>\<open>api.py\<close>\<close>

definition COMPLEMENT :: "string \<rightharpoonup> string" where
  "COMPLEMENT =
     map_of [(''T'', ''A''), (''A'', ''T''), (''C'', ''G''), (''G'', ''C'')]"

text \<open>
  \<open>findAll(seq, sub, start, end)\<close>: the indices \<open>i\<close> of \<open>range(start, end)\<close> with
  \<open>seq[i:i+len(sub)] == sub\<close>; \<open>end=None\<close> stands for \<open>len(seq)\<close>.
\<close>

definition findAll :: "string \<Rightarrow> string \<Rightarrow> int \<Rightarrow> int option \<Rightarrow> int list" where
  "findAll seq sub start end =
     (let e = (case end of None \<Rightarrow> int (length seq) | Some e \<Rightarrow> e)
      in filter (\<lambda>i. py_slice seq i (i + int (length sub)) = sub) (py_range start e))"

subsection \<open>The task object\<close>

text \<open>
  The attributes of a \<open>FindTALTask\<close>. \<open>__init__\<close> stores its eight arguments and the
  two derived distances. \<open>sequence\<close> and \<open>sequence_id\<close> are assigned by \<open>run\<close>
  (\<open>load_record\<close> below) before it starts the generator, which is the generator's only
  caller; statements about the generator read them as assigned.
\<close>

record FindTALTask =
  fasta :: string
  min_spacer :: int
  max_spacer :: int
  array_min :: int
  array_max :: int
  outpath :: "string option"
  filter_base :: "int option"
  upstream_bases :: "string list"
  max_dist :: int
  min_dist :: int
  sequence :: string
  sequence_id :: string

definition FindTALTask_init ::
  "string \<Rightarrow> int \<Rightarrow> int \<Rightarrow> int \<Rightarrow> int \<Rightarrow> string option \<Rightarrow> int option \<Rightarrow> string list
     \<Rightarrow> FindTALTask" where
  "FindTALTask_init fa mins maxs amin amax outp fb ubs =
     \<lparr> fasta = fa, min_spacer = mins, max_spacer = maxs,
       array_min = amin, array_max = amax, outpath = outp,
       filter_base = fb, upstream_bases = ubs,
       max_dist = 2 * amax + maxs,
       min_dist = 2 * amin + mins,
       sequence = [], sequence_id = [] \<rparr>"

text \<open>Lines 152-153 of \<open>run\<close>: the first record's sequence, upper-cased, and its id.\<close>

definition load_record :: "FindTALTask \<Rightarrow> string \<Rightarrow> string \<Rightarrow> FindTALTask" where
  "load_record T rid rseq = T\<lparr> sequence := upper rseq, sequence_id := rid \<rparr>"

subsection \<open>\<open>_create_tal_pair\<close>\<close>

text \<open>The dictionary returned by \<open>_create_tal_pair\<close>, one field per key, in key order.\<close>

record tal_pair =
  Sequence_Name :: string
  Cut_Site :: int
  TAL1_start :: int
  TAL2_start :: int
  TAL1_length :: int
  TAL2_length :: int
  Spacer_length :: int
  Spacer_range :: string
  TAL1_RVDs :: string
  TAL2_RVDs :: string
  Plus_strand_sequence :: string
  Unique_RE_sites_in_spacer :: string
  Pct_RVDs_HD_or_NN_NH :: string

text \<open>The four local variables of lines 104-107.\<close>

definition tal1_start :: "int \<Rightarrow> int" where
  "tal1_start up_pos = up_pos + 1"

definition tal1_end :: "int \<Rightarrow> int \<Rightarrow> int" where
  "tal1_end cut_site spacer_length = cut_site - spacer_length div 2"

definition tal2_start :: "int \<Rightarrow> int \<Rightarrow> int" where
  "tal2_start cut_site spacer_length = cut_site + (spacer_length + 1) div 2 - 1"

definition tal2_end :: "int \<Rightarrow> int" where
  "tal2_end down_pos = down_pos"

text \<open>
  The three slices never raise; the two index reads of the f-string raise
  \<open>IndexError\<close> out of range, the one at \<open>up_pos\<close> first.
\<close>

definition create_tal_pair :: "FindTALTask \<Rightarrow> int \<Rightarrow> int \<Rightarrow> int \<Rightarrow> int \<Rightarrow> exn + tal_pair" where
  "create_tal_pair T cut_site up_pos down_pos spacer_length =
     (let tal1 = py_slice (sequence T) (tal1_start up_pos) (tal1_end cut_site spacer_length);
          tal2 = py_slice (sequence T) (tal2_start cut_site spacer_length) (tal2_end down_pos);
          spacer = py_slice (sequence T) (tal1_end cut_site spacer_length)
                     (tal2_start cut_site spacer_length)
      in case py_index (sequence T) up_pos of
           Inl e \<Rightarrow> Inl e
         | Inr u \<Rightarrow>
            (case py_index (sequence T) down_pos of
               Inl e \<Rightarrow> Inl e
             | Inr d \<Rightarrow>
                Inr \<lparr> Sequence_Name = sequence_id T,
                      Cut_Site = cut_site,
                      TAL1_start = tal1_start up_pos,
                      TAL2_start = tal2_end down_pos - 1,
                      TAL1_length = int (length tal1),
                      TAL2_length = int (length tal2),
                      Spacer_length = spacer_length,
                      Spacer_range =
                        py_str (tal1_end cut_site spacer_length) @ ''-''
                          @ py_str (tal2_start cut_site spacer_length),
                      TAL1_RVDs = [],
                      TAL2_RVDs = [],
                      Plus_strand_sequence =
                        u @ '' '' @ tal1 @ '' '' @ lower spacer @ '' '' @ tal2 @ '' '' @ d,
                      Unique_RE_sites_in_spacer = [],
                      Pct_RVDs_HD_or_NN_NH = [] \<rparr>))"

subsection \<open>\<open>_find_tal_pairs_for_seq\<close>, filtered mode (lines 63-79)\<close>

text \<open>
  The two \<open>assert\<close> statements are modelled as executed (the interpreter's default):
  each reads the sequence, which may raise \<open>IndexError\<close>, and raises
  \<open>AssertionError\<close> when the comparison fails.
\<close>

definition py_assert_base :: "string \<Rightarrow> int \<Rightarrow> string \<Rightarrow> 'a gen \<Rightarrow> 'a gen" where
  "py_assert_base s pos base rest =
     (case py_index s pos of
        Inl e \<Rightarrow> ([], Some e)
      | Inr c \<Rightarrow> if c = base then rest else ([], Some AssertionError))"

definition filtered_pairs :: "FindTALTask \<Rightarrow> int \<Rightarrow> string \<Rightarrow> string \<Rightarrow> tal_pair gen" where
  "filtered_pairs T fb upstream_base downstream_base =
     (if fb - max_dist T div 2 < 0
         \<or> fb + (max_dist T + 1) div 2 + 1 > int (length (sequence T))
      then ([], None)
      else
        let up_pos_array =
              findAll (sequence T) upstream_base
                (fb - max_dist T div 2 - 1) (Some (fb - min_dist T div 2 - 1));
            down_pos_array =
              findAll (sequence T) downstream_base
                (fb + (min_dist T + 1) div 2) (Some (fb + (max_dist T + 1) div 2 + 1))
        in gen_for up_pos_array (\<lambda>up_pos.
             gen_for down_pos_array (\<lambda>down_pos.
               py_assert_base (sequence T) up_pos upstream_base
                (py_assert_base (sequence T) down_pos downstream_base
                  (gen_for (py_range (min_spacer T) (max_spacer T + 1)) (\<lambda>spacer_length.
                     gen_yield (create_tal_pair T fb up_pos down_pos spacer_length)))))))"

subsection \<open>\<open>_find_tal_pairs_for_seq\<close>, unfiltered mode (lines 81-100)\<close>

text \<open>
  The deque \<open>upstream_q\<close> is a list, its left end the head.
  Lines 89-90: \<open>while upstream_q and upstream_q[0] < min_i_allowed: popleft()\<close>.
\<close>

fun evict :: "int list \<Rightarrow> int \<Rightarrow> int list" where
  "evict [] min_i_allowed = []"
| "evict (t # q) min_i_allowed =
     (if t < min_i_allowed then evict q min_i_allowed else t # q)"

text \<open>
  Lines 96-98: what one accepted anchor pair \<open>(t, j)\<close> contributes, the spacer loop
  outside the loop over the cut sites.
\<close>

definition anchor_pair_records :: "FindTALTask \<Rightarrow> int \<Rightarrow> int \<Rightarrow> tal_pair gen" where
  "anchor_pair_records T t j =
     gen_for (py_range (min_spacer T) (max_spacer T + 1)) (\<lambda>spacer_length.
       gen_for (py_range (t + min_dist T div 2) (j - min_dist T div 2)) (\<lambda>cut_site.
         gen_yield (create_tal_pair T cut_site t j spacer_length)))"

text \<open>
  Lines 94-100: the loop over a copy of the queue, left at the first \<open>t\<close> above
  \<open>max_i_allowed\<close>.
\<close>

fun emit_queue :: "FindTALTask \<Rightarrow> int \<Rightarrow> int \<Rightarrow> int list \<Rightarrow> tal_pair gen" where
  "emit_queue T j max_i_allowed [] = ([], None)"
| "emit_queue T j max_i_allowed (t # ts) =
     (if t \<le> max_i_allowed then
        gen_then (anchor_pair_records T t j) (emit_queue T j max_i_allowed ts)
      else ([], None))"

text \<open>
  Lines 82-100: the loop over \<open>j\<close>, with the indices still to visit and the queue as
  its state.
\<close>

fun scan :: "FindTALTask \<Rightarrow> string \<Rightarrow> int list \<Rightarrow> int list \<Rightarrow> tal_pair gen" where
  "scan T upstream_base [] upstream_q = ([], None)"
| "scan T upstream_base (j # js) upstream_q =
     (case py_index (sequence T) j of
        Inl e \<Rightarrow> ([], Some e)
      | Inr ch \<Rightarrow>
          if ch = upstream_base then scan T upstream_base js (upstream_q @ [j])
          else if COMPLEMENT upstream_base = Some ch then
            (let q = evict upstream_q (j - max_dist T)
             in gen_then (emit_queue T j (j - min_dist T) q) (scan T upstream_base js q))
          else scan T upstream_base js upstream_q)"

definition unfiltered_pairs :: "FindTALTask \<Rightarrow> string \<Rightarrow> tal_pair gen" where
  "unfiltered_pairs T upstream_base =
     scan T upstream_base (py_range 0 (int (length (sequence T)))) []"

subsection \<open>\<open>_find_tal_pairs_for_seq\<close>\<close>

text \<open>
  The loop over \<open>upstream_bases\<close>: \<open>COMPLEMENT[upstream_base]\<close> raises \<open>KeyError\<close>
  for a key the dictionary does not have.
\<close>

definition pairs_for_base :: "FindTALTask \<Rightarrow> string \<Rightarrow> tal_pair gen" where
  "pairs_for_base T upstream_base =
     (case COMPLEMENT upstream_base of
        None \<Rightarrow> ([], Some (KeyError upstream_base))
      | Some downstream_base \<Rightarrow>
          (case filter_base T of
             Some fb \<Rightarrow> filtered_pairs T fb upstream_base downstream_base
           | None \<Rightarrow> unfiltered_pairs T upstream_base))"

definition find_tal_pairs_for_seq :: "FindTALTask \<Rightarrow> tal_pair gen" where
  "find_tal_pairs_for_seq T = gen_for (upstream_bases T) (pairs_for_base T)"

subsection \<open>\<open>run\<close>\<close>

text \<open>
  What \<open>run\<close> meets at the path \<open>self.fasta\<close>: \<open>open\<close> raises
  \<open>FileNotFoundError\<close>; \<open>open\<close> raises another exception (its message is kept);
  \<open>next(SeqIO.parse(f, 'fasta'))\<close> raises, as \<open>StopIteration\<close> does on a file
  without records; or the first record is parsed, with its id and its sequence.
\<close>

datatype fasta_file =
    Missing
  | Unreadable string
  | Unparsable string
  | FirstRecord string string

text \<open>
  Name resolution at lines 144-145. A name is looked up among the locals of \<open>run\<close>
  bound at that point, then among the names bound at the top level of \<open>api.py\<close>
  (its five imports, lines 1-5, its one assignment and its two definitions), then among the
  interpreter's builtins, which the model takes as a parameter.
\<close>

definition run_locals :: "string list" where
  "run_locals = [''self'', ''f'', ''first_record'']"

definition module_names :: "string list" where
  "module_names =
     [''Path'', ''List'', ''Optional'', ''deque'', ''pd'', ''SeqIO'',
      ''COMPLEMENT'', ''findAll'', ''FindTALTask'']"

definition name_defined :: "string list \<Rightarrow> string \<Rightarrow> bool" where
  "name_defined builtins x = (x \<in> set (run_locals @ module_names @ builtins))"

text \<open>
  The value \<open>run\<close> returns: the rows of the data frame and the path the table was
  written to, if \<open>outpath\<close> is not \<open>None\<close>.
\<close>

record run_result =
  df :: "tal_pair list"
  written_to :: "string option"

text \<open>
  \<open>except FileNotFoundError\<close> re-raises with the path; \<open>except Exception as e\<close>
  catches everything else raised inside the \<open>try\<close> block, the \<open>NameError\<close> of an
  unbound name included, and raises \<open>Exception\<close> with \<open>str(e)\<close> in its message.
  After the block the generator is consumed into the list of rows; an exception it raises
  leaves \<open>run\<close>.
\<close>

definition run :: "string list \<Rightarrow> fasta_file \<Rightarrow> FindTALTask \<Rightarrow> exn + run_result" where
  "run builtins file T =
     (case file of
        Missing \<Rightarrow> Inl (FileNotFoundError (''FASTA file not found: '' @ fasta T))
      | Unreadable msg \<Rightarrow> Inl (Exception (''Error reading FASTA file: '' @ msg))
      | Unparsable msg \<Rightarrow> Inl (Exception (''Error reading FASTA file: '' @ msg))
      | FirstRecord rid rseq \<Rightarrow>
          if \<not> name_defined builtins ''logger'' then
            Inl (Exception (''Error reading FASTA file: ''
                   @ ''name '' @ [CHR 0x27] @ ''logger'' @ [CHR 0x27] @ '' is not defined''))
          else
            (case find_tal_pairs_for_seq (load_record T rid rseq) of
               (rows, Some e) \<Rightarrow> Inl e
             | (rows, None) \<Rightarrow> Inr \<lparr> df = rows, written_to = outpath T \<rparr>))"

subsection \<open>The generator over the interpreter's state\<close>

text \<open>
  What outlives one run of the generator and could make a second run differ. The task's
  integer and string attributes are immutable values; \<open>upstream_bases\<close> is a reference
  to a list object, which any holder of the reference can change. The default
  \<open>['T']\<close> of \<open>__init__\<close> is one list object, created when the function is defined:
  every task created without the argument refers to that same object. The generator reads
  the attributes of \<open>self\<close> when it is iterated, not when it is created. Its deque
  \<open>upstream_q\<close> is a local of the frame; the state keeps it here as if it outlived the
  pass, so that a run starts from whatever the previous one left.
\<close>

type_synonym addr = nat

record task_object =
  fasta_attr :: string
  min_spacer_attr :: int
  max_spacer_attr :: int
  array_min_attr :: int
  array_max_attr :: int
  outpath_attr :: "string option"
  filter_base_attr :: "int option"
  upstream_bases_attr :: addr
  max_dist_attr :: int
  min_dist_attr :: int
  sequence_attr :: string
  sequence_id_attr :: string

record interp_state =
  list_objects :: "addr \<Rightarrow> string list"
  self_object :: task_object
  frame_upstream_q :: "int list"

definition default_upstream_bases :: addr where
  "default_upstream_bases = 0"

text \<open>
  \<open>__init__\<close> on the store: \<open>upstream_bases\<close> is the reference passed, or the one
  default list. Lines 152-153 then assign the sequence and its id.
\<close>

definition FindTALTask_new ::
  "string \<Rightarrow> int \<Rightarrow> int \<Rightarrow> int \<Rightarrow> int \<Rightarrow> string option \<Rightarrow> int option \<Rightarrow> addr option
     \<Rightarrow> task_object" where
  "FindTALTask_new fa mins maxs amin amax outp fb ubs =
     \<lparr> fasta_attr = fa, min_spacer_attr = mins, max_spacer_attr = maxs,
       array_min_attr = amin, array_max_attr = amax, outpath_attr = outp,
       filter_base_attr = fb,
       upstream_bases_attr = (case ubs of None \<Rightarrow> default_upstream_bases | Some a \<Rightarrow> a),
       max_dist_attr = 2 * amax + maxs,
       min_dist_attr = 2 * amin + mins,
       sequence_attr = [], sequence_id_attr = [] \<rparr>"

definition assign_record :: "task_object \<Rightarrow> string \<Rightarrow> string \<Rightarrow> task_object" where
  "assign_record ob rid rseq = ob\<lparr> sequence_attr := upper rseq, sequence_id_attr := rid \<rparr>"

text \<open>
  Reading \<open>self.x\<close> in a state: the attribute's value, and for \<open>upstream_bases\<close> the
  present contents of the list it refers to.
\<close>

definition self_view :: "interp_state \<Rightarrow> FindTALTask" where
  "self_view \<sigma> =
     \<lparr> fasta = fasta_attr (self_object \<sigma>),
       min_spacer = min_spacer_attr (self_object \<sigma>),
       max_spacer = max_spacer_attr (self_object \<sigma>),
       array_min = array_min_attr (self_object \<sigma>),
       array_max = array_max_attr (self_object \<sigma>),
       outpath = outpath_attr (self_object \<sigma>),
       filter_base = filter_base_attr (self_object \<sigma>),
       upstream_bases = list_objects \<sigma> (upstream_bases_attr (self_object \<sigma>)),
       max_dist = max_dist_attr (self_object \<sigma>),
       min_dist = min_dist_attr (self_object \<sigma>),
       sequence = sequence_attr (self_object \<sigma>),
       sequence_id = sequence_id_attr (self_object \<sigma>) \<rparr>"

text \<open>
  The three statements of the generator that write: \<open>upstream_q = deque()\<close> (line 81),
  \<open>upstream_q.append(j)\<close> (line 85) and the \<open>popleft\<close> loop (lines 89-90). Every
  other statement reads, through \<open>self_view\<close> of the state it runs in.
\<close>

definition new_deque :: "interp_state \<Rightarrow> interp_state" where
  "new_deque \<sigma> = \<sigma>\<lparr> frame_upstream_q := [] \<rparr>"

definition deque_append :: "int \<Rightarrow> interp_state \<Rightarrow> interp_state" where
  "deque_append j \<sigma> = \<sigma>\<lparr> frame_upstream_q := frame_upstream_q \<sigma> @ [j] \<rparr>"

definition popleft_while :: "int \<Rightarrow> interp_state \<Rightarrow> interp_state" where
  "popleft_while min_i_allowed \<sigma> =
     \<sigma>\<lparr> frame_upstream_q := evict (frame_upstream_q \<sigma>) min_i_allowed \<rparr>"

text \<open>
  Lines 82-100 as a state transformer. Each pass of the loop reads the attributes in the
  state it has reached; the loop over the copy \<open>list(upstream_q)\<close> only reads. An
  exception ends the generator in the state reached.
\<close>

fun scan_st :: "string \<Rightarrow> int list \<Rightarrow> interp_state \<Rightarrow> tal_pair gen \<times> interp_state" where
  "scan_st upstream_base [] \<sigma> = (([], None), \<sigma>)"
| "scan_st upstream_base (j # js) \<sigma> =
     (case py_index (sequence (self_view \<sigma>)) j of
        Inl e \<Rightarrow> (([], Some e), \<sigma>)
      | Inr ch \<Rightarrow>
          if ch = upstream_base then scan_st upstream_base js (deque_append j \<sigma>)
          else if COMPLEMENT upstream_base = Some ch then
            (let \<sigma>1 = popleft_while (j - max_dist (self_view \<sigma>)) \<sigma>;
                 g = emit_queue (self_view \<sigma>1) j (j - min_dist (self_view \<sigma>1))
                       (frame_upstream_q \<sigma>1)
             in case snd g of
                  Some e \<Rightarrow> (g, \<sigma>1)
                | None \<Rightarrow>
                    (let rest = scan_st upstream_base js \<sigma>1
                     in (gen_then g (fst rest), snd rest)))
          else scan_st upstream_base js \<sigma>)"

text \<open>Lines 62-100 for one upstream base; the filtered mode only reads.\<close>

definition pairs_for_base_st :: "string \<Rightarrow> interp_state \<Rightarrow> tal_pair gen \<times> interp_state" where
  "pairs_for_base_st upstream_base \<sigma> =
     (case COMPLEMENT upstream_base of
        None \<Rightarrow> (([], Some (KeyError upstream_base)), \<sigma>)
      | Some downstream_base \<Rightarrow>
          (case filter_base (self_view \<sigma>) of
             Some fb \<Rightarrow> (filtered_pairs (self_view \<sigma>) fb upstream_base downstream_base, \<sigma>)
           | None \<Rightarrow>
               scan_st upstream_base
                 (py_range 0 (int (length (sequence (self_view \<sigma>))))) (new_deque \<sigma>)))"

text \<open>
  Line 61: the loop over the entries of \<open>self.upstream_bases\<close> as read when the loop
  starts, the state handed from one entry to the next.
\<close>

fun bases_loop_st :: "string list \<Rightarrow> interp_state \<Rightarrow> tal_pair gen \<times> interp_state" where
  "bases_loop_st [] \<sigma> = (([], None), \<sigma>)"
| "bases_loop_st (upstream_base # bases) \<sigma> =
     (let first = pairs_for_base_st upstream_base \<sigma>
      in case snd (fst first) of
           Some e \<Rightarrow> first
         | None \<Rightarrow>
             (let rest = bases_loop_st bases (snd first)
              in (gen_then (fst first) (fst rest), snd rest)))"

definition find_tal_pairs_st :: "interp_state \<Rightarrow> tal_pair gen \<times> interp_state" where
  "find_tal_pairs_st \<sigma> = bases_loop_st (upstream_bases (self_view \<sigma>)) \<sigma>"

section \<open>Example inputs\<close>

text \<open>
  A five-base sequence with one anchor pair, \<open>T\<close> at 0 and \<open>A\<close> at 4, under
  \<open>array_min = array_max = 1\<close>, \<open>min_spacer = 1\<close>, \<open>max_spacer = 2\<close>:
  \<open>min_dist = 3\<close> and \<open>max_dist = 4\<close>, the distance of the pair.
\<close>

definition small_task :: FindTALTask where
  "small_task =
     load_record (FindTALTask_init ''in.fa'' 1 2 1 1 (Some ''out.tsv'') None [''T''])
       ''seq1'' ''TCCCA''"

text \<open>The same configuration in filtered mode at cut site 3 of a six-base sequence.\<close>

definition small_filtered_task :: FindTALTask where
  "small_filtered_task =
     load_record (FindTALTask_init ''in.fa'' 1 2 1 1 (Some ''out.tsv'') (Some 3) [''T''])
       ''seq1'' ''TCCCCA''"

text \<open>
  An inverted array range, \<open>array_min = 2\<close> above \<open>array_max = 1\<close>, with spacers
  1 to 4: \<open>min_dist = 5\<close> and \<open>max_dist = 6\<close>.
\<close>

definition inverted_array_task :: FindTALTask where
  "inverted_array_task =
     load_record (FindTALTask_init ''in.fa'' 1 4 2 1 (Some ''out.tsv'') None [''T''])
       ''seq1'' ''TCCCCA''"

text \<open>An upstream base outside the four keys of \<open>COMPLEMENT\<close>.\<close>

definition unknown_base_task :: FindTALTask where
  "unknown_base_task =
     load_record (FindTALTask_init ''in.fa'' 14 18 14 18 (Some ''out.tsv'') None [''N''])
       ''seq1'' ''TCCCCA''"

text \<open>
  A wider spacer range and longer arrays, where every window is non-negative:
  \<open>array_min = array_max = 2\<close>, spacers 2 to 3, so \<open>min_dist = 6\<close> and
  \<open>max_dist = 7\<close>.
\<close>

definition wide_task :: FindTALTask where
  "wide_task =
     load_record (FindTALTask_init ''in.fa'' 2 3 2 2 (Some ''out.tsv'') None [''T''])
       ''seq1'' ''TCCCCCCA''"

text \<open>
  An even \<open>min_dist\<close>: \<open>array_min = array_max = 1\<close> and spacers 2 to 2 give
  \<open>min_dist = max_dist = 4\<close>, the distance of the one anchor pair of the sequence.
\<close>

definition even_task :: FindTALTask where
  "even_task =
     load_record (FindTALTask_init ''in.fa'' 2 2 1 1 (Some ''out.tsv'') None [''T''])
       ''seq1'' ''TCCCA''"

text \<open>
  The sequence of the repository's test, twenty \<open>T\<close>, twenty-one \<open>C\<close> and twenty
  \<open>A\<close>, under the default bounds (\<open>max_dist = 54\<close>) with \<open>filter_base = 5\<close>,
  closer to the left end than \<open>max_dist//2 = 27\<close>.
\<close>

definition edge_task :: FindTALTask where
  "edge_task =
     load_record (FindTALTask_init ''in.fa'' 14 18 14 18 (Some ''out.tsv'') (Some 5) [''T''])
       ''test_10400_T'' (replicate 20 CHR ''T'' @ replicate 21 CHR ''C'' @ replicate 20 CHR ''A'')"

text \<open>A sequence of two bases, shorter than \<open>min_dist = 3\<close>.\<close>

definition short_task :: FindTALTask where
  "short_task =
     load_record (FindTALTask_init ''in.fa'' 1 2 1 1 (Some ''out.tsv'') None [''T''])
       ''seq1'' ''TA''"

text \<open>An inverted spacer range, \<open>min_spacer = 2\<close> above \<open>max_spacer = 1\<close>.\<close>

definition inverted_spacer_task :: FindTALTask where
  "inverted_spacer_task =
     load_record (FindTALTask_init ''in.fa'' 2 1 1 1 (Some ''out.tsv'') None [''T''])
       ''seq1'' ''TCCCA''"

text \<open>
  An inverted array range that inverts the distances too: \<open>array_min = 2\<close>,
  \<open>array_max = 1\<close> and spacers 1 to 1 give \<open>min_dist = 5\<close> above \<open>max_dist = 3\<close>.
\<close>

definition inverted_dist_task :: FindTALTask where
  "inverted_dist_task =
     load_record (FindTALTask_init ''in.fa'' 1 1 2 1 (Some ''out.tsv'') None [''T''])
       ''seq1'' ''TCCCCA''"

text \<open>
  The state of an interpreter after earlier work: the default list object holds \<open>T\<close>,
  the task is the one of \<open>small_task\<close>, created without \<open>upstream_bases\<close>, and the
  deque still holds two indices.
\<close>

definition small_state :: interp_state where
  "small_state =
     \<lparr> list_objects = (\<lambda>a. if a = default_upstream_bases then [''T''] else []),
       self_object =
         assign_record
           (FindTALTask_new ''in.fa'' 1 2 1 1 (Some ''out.tsv'') None None) ''seq1'' ''TCCCA'',
       frame_upstream_q = [0, 3] \<rparr>"

section \<open>Auxiliary facts\<close>

subsection \<open>Generators and ranges\<close>

lemma set_py_range: "set (py_range a b) = {a..<b}"
  by (auto simp: py_range_def)

lemma sorted_py_range: "sorted (py_range a b)"
  by (simp add: py_range_def)

lemma fst_gen_then: "set (fst (gen_then g h)) \<subseteq> set (fst g) \<union> set (fst h)"
  by (auto simp: gen_then_def split: option.splits)

lemma in_gen_thenD:
  "r \<in> set (fst (gen_then g h)) \<Longrightarrow> r \<in> set (fst g) \<or> r \<in> set (fst h)"
  using fst_gen_then by fastforce

lemma in_gen_forD:
  "r \<in> set (fst (gen_for xs body)) \<Longrightarrow> \<exists>x\<in>set xs. r \<in> set (fst (body x))"
  by (induction xs) (auto dest: in_gen_thenD)

lemma in_gen_yieldD: "r \<in> set (fst (gen_yield v)) \<Longrightarrow> v = Inr r"
  by (auto simp: gen_yield_def split: sum.splits)

lemma snd_gen_then_None: "snd g = None \<Longrightarrow> snd h = None \<Longrightarrow> snd (gen_then g h) = None"
  by (simp add: gen_then_def)

lemma snd_gen_for_None:
  "(\<And>x. x \<in> set xs \<Longrightarrow> snd (body x) = None) \<Longrightarrow> snd (gen_for xs body) = None"
  by (induction xs) (auto intro: snd_gen_then_None)

lemma evict_dropWhile: "evict q m = dropWhile (\<lambda>t. t < m) q"
  by (induction q) auto

lemma set_evict: "set (evict q m) \<subseteq> set q"
  by (simp add: evict_dropWhile set_dropWhileD subsetI)

lemma evict_lower: "sorted q \<Longrightarrow> t \<in> set (evict q m) \<Longrightarrow> m \<le> t"
  by (induction q) (auto split: if_splits)

lemma evict_keeps: "sorted q \<Longrightarrow> t \<in> set q \<Longrightarrow> m \<le> t \<Longrightarrow> t \<in> set (evict q m)"
  by (induction q) (auto split: if_splits)

lemma sorted_evict_append: "sorted (q @ js) \<Longrightarrow> sorted (evict q m @ js)"
  by (induction q) (auto simp: sorted_append)

lemma anchor_pair_recordsD:
  assumes "r \<in> set (fst (anchor_pair_records T t j))"
  shows "\<exists>sl c. min_spacer T \<le> sl \<and> sl \<le> max_spacer T
      \<and> t + min_dist T div 2 \<le> c \<and> c < j - min_dist T div 2
      \<and> create_tal_pair T c t j sl = Inr r"
proof -
  from assms obtain sl where sl: "sl \<in> set (py_range (min_spacer T) (max_spacer T + 1))"
    and "r \<in> set (fst (gen_for (py_range (t + min_dist T div 2) (j - min_dist T div 2))
           (\<lambda>c. gen_yield (create_tal_pair T c t j sl))))"
    unfolding anchor_pair_records_def using in_gen_forD by fastforce
  then obtain c where c: "c \<in> set (py_range (t + min_dist T div 2) (j - min_dist T div 2))"
    and "r \<in> set (fst (gen_yield (create_tal_pair T c t j sl)))"
    using in_gen_forD by fastforce
  then have "create_tal_pair T c t j sl = Inr r" by (simp add: in_gen_yieldD)
  with sl c show ?thesis by (auto simp: set_py_range)
qed

lemma emit_queueD:
  "r \<in> set (fst (emit_queue T j mx q)) \<Longrightarrow>
   \<exists>t\<in>set q. t \<le> mx \<and> r \<in> set (fst (anchor_pair_records T t j))"
proof (induction q)
  case Nil
  then show ?case by simp
next
  case (Cons t ts)
  show ?case
  proof (cases "t \<le> mx")
    case False
    with Cons.prems show ?thesis by simp
  next
    case True
    with Cons.prems have "r \<in> set (fst (anchor_pair_records T t j))
        \<or> r \<in> set (fst (emit_queue T j mx ts))"
      by (auto dest: in_gen_thenD)
    with True Cons.IH show ?thesis by auto
  qed
qed

subsection \<open>The scan of the unfiltered mode\<close>

lemma scanD:
  assumes "r \<in> set (fst (scan T ub js q))" and "sorted (q @ js)"
  shows "\<exists>j t ch sl c. j \<in> set js
      \<and> (t \<in> set q \<or> (t \<in> set js \<and> py_index (sequence T) t = Inr ub))
      \<and> py_index (sequence T) j = Inr ch \<and> COMPLEMENT ub = Some ch
      \<and> j - max_dist T \<le> t \<and> t \<le> j - min_dist T
      \<and> min_spacer T \<le> sl \<and> sl \<le> max_spacer T
      \<and> t + min_dist T div 2 \<le> c \<and> c < j - min_dist T div 2
      \<and> create_tal_pair T c t j sl = Inr r"
  using assms
proof (induction js arbitrary: q)
  case Nil
  then show ?case by simp
next
  case (Cons j js)
  from Cons.prems(1) obtain ch where ch: "py_index (sequence T) j = Inr ch"
    by (cases "py_index (sequence T) j") auto
  have sq: "sorted q" and sjs: "sorted (q @ js)"
    using Cons.prems(2) by (auto simp: sorted_append)
  show ?case
  proof (cases "ch = ub")
    case True
    with Cons.prems(1) ch have "r \<in> set (fst (scan T ub js (q @ [j])))" by simp
    moreover have "sorted ((q @ [j]) @ js)" using Cons.prems(2) by simp
    ultimately obtain j' t ch' sl c where
      "j' \<in> set js"
      "t \<in> set (q @ [j]) \<or> (t \<in> set js \<and> py_index (sequence T) t = Inr ub)"
      "py_index (sequence T) j' = Inr ch'" "COMPLEMENT ub = Some ch'"
      "j' - max_dist T \<le> t" "t \<le> j' - min_dist T"
      "min_spacer T \<le> sl" "sl \<le> max_spacer T"
      "t + min_dist T div 2 \<le> c" "c < j' - min_dist T div 2"
      "create_tal_pair T c t j' sl = Inr r"
      using Cons.IH [of "q @ [j]"] by blast
    moreover from this(2) True ch
    have "t \<in> set q \<or> (t \<in> set (j # js) \<and> py_index (sequence T) t = Inr ub)"
      by auto
    ultimately show ?thesis
      by (intro exI [of _ j'] exI [of _ t] exI [of _ ch'] exI [of _ sl] exI [of _ c]) simp
  next
    case False
    show ?thesis
    proof (cases "COMPLEMENT ub = Some ch")
      case compl: True
      let ?q = "evict q (j - max_dist T)"
      from Cons.prems(1) ch False compl consider
        (here) "r \<in> set (fst (emit_queue T j (j - min_dist T) ?q))"
        | (later) "r \<in> set (fst (scan T ub js ?q))"
        by (auto simp: Let_def dest: in_gen_thenD)
      then show ?thesis
      proof cases
        case here
        then obtain t where t: "t \<in> set ?q" "t \<le> j - min_dist T"
          and "r \<in> set (fst (anchor_pair_records T t j))"
          by (blast dest: emit_queueD)
        from anchor_pair_recordsD [OF this(3)] obtain sl c where
          rest: "min_spacer T \<le> sl" "sl \<le> max_spacer T"
            "t + min_dist T div 2 \<le> c" "c < j - min_dist T div 2"
            "create_tal_pair T c t j sl = Inr r"
          by blast
        from t(1) sq have "j - max_dist T \<le> t" by (rule evict_lower [rotated])
        moreover from t(1) have "t \<in> set q" using set_evict by blast
        ultimately show ?thesis using t(2) rest ch compl
          by (intro exI [of _ j] exI [of _ t] exI [of _ ch] exI [of _ sl] exI [of _ c]) simp
      next
        case later
        moreover have "sorted (?q @ js)" using sjs by (rule sorted_evict_append)
        ultimately obtain j' t ch' sl c where
          "j' \<in> set js"
          "t \<in> set ?q \<or> (t \<in> set js \<and> py_index (sequence T) t = Inr ub)"
          "py_index (sequence T) j' = Inr ch'" "COMPLEMENT ub = Some ch'"
          "j' - max_dist T \<le> t" "t \<le> j' - min_dist T"
          "min_spacer T \<le> sl" "sl \<le> max_spacer T"
          "t + min_dist T div 2 \<le> c" "c < j' - min_dist T div 2"
          "create_tal_pair T c t j' sl = Inr r"
          using Cons.IH [of ?q] by blast
        moreover from this(2)
        have "t \<in> set q \<or> (t \<in> set (j # js) \<and> py_index (sequence T) t = Inr ub)"
          using set_evict by fastforce
        ultimately show ?thesis
          by (intro exI [of _ j'] exI [of _ t] exI [of _ ch'] exI [of _ sl] exI [of _ c]) simp
      qed
    next
      case nocompl: False
      with Cons.prems(1) ch False have "r \<in> set (fst (scan T ub js q))" by simp
      with sjs obtain j' t ch' sl c where
        "j' \<in> set js"
        "t \<in> set q \<or> (t \<in> set js \<and> py_index (sequence T) t = Inr ub)"
        "py_index (sequence T) j' = Inr ch'" "COMPLEMENT ub = Some ch'"
        "j' - max_dist T \<le> t" "t \<le> j' - min_dist T"
        "min_spacer T \<le> sl" "sl \<le> max_spacer T"
        "t + min_dist T div 2 \<le> c" "c < j' - min_dist T div 2"
        "create_tal_pair T c t j' sl = Inr r"
        using Cons.IH [of q] by blast
      then show ?thesis
        by (intro exI [of _ j'] exI [of _ t] exI [of _ ch'] exI [of _ sl] exI [of _ c]) auto
    qed
  qed
qed

lemma unfiltered_pairsD:
  assumes "r \<in> set (fst (unfiltered_pairs T ub))"
  shows "\<exists>j t ch sl c. 0 \<le> t \<and> j < int (length (sequence T))
      \<and> py_index (sequence T) t = Inr ub
      \<and> py_index (sequence T) j = Inr ch \<and> COMPLEMENT ub = Some ch
      \<and> j - max_dist T \<le> t \<and> t \<le> j - min_dist T
      \<and> min_spacer T \<le> sl \<and> sl \<le> max_spacer T
      \<and> t + min_dist T div 2 \<le> c \<and> c < j - min_dist T div 2
      \<and> create_tal_pair T c t j sl = Inr r"
proof -
  let ?js = "py_range 0 (int (length (sequence T)))"
  from assms have "r \<in> set (fst (scan T ub ?js []))" by (simp add: unfiltered_pairs_def)
  moreover have "sorted ([] @ ?js)" by (simp add: sorted_py_range)
  ultimately obtain j t ch sl c where
    "j \<in> set ?js"
    "t \<in> set [] \<or> (t \<in> set ?js \<and> py_index (sequence T) t = Inr ub)"
    "py_index (sequence T) j = Inr ch" "COMPLEMENT ub = Some ch"
    "j - max_dist T \<le> t" "t \<le> j - min_dist T"
    "min_spacer T \<le> sl" "sl \<le> max_spacer T"
    "t + min_dist T div 2 \<le> c" "c < j - min_dist T div 2"
    "create_tal_pair T c t j sl = Inr r"
    using scanD [of r T ub ?js "[]"] by blast
  then show ?thesis
    by (intro exI [of _ j] exI [of _ t] exI [of _ ch] exI [of _ sl] exI [of _ c])
       (simp add: set_py_range)
qed

subsection \<open>Slices, indices and the filtered mode\<close>

lemma findAllD:
  "i \<in> set (findAll s sub a (Some b)) \<Longrightarrow>
     a \<le> i \<and> i < b \<and> py_slice s i (i + int (length sub)) = sub"
  by (simp add: findAll_def set_py_range)

lemma take_drop_single:
  assumes "take k (drop lo s) = [c]"
  shows "lo < length s \<and> 0 < k \<and> s ! lo = c"
proof -
  from assms have k: "0 < k" by (cases k) auto
  from assms have "drop lo s \<noteq> []" by auto
  then have lo: "lo < length s" by simp
  then have "drop lo s = s ! lo # drop (Suc lo) s" by (simp add: Cons_nth_drop_Suc)
  with assms k have "s ! lo = c" by (cases k) auto
  with k lo show ?thesis by simp
qed

lemma py_slice_single:
  assumes "py_slice s i (i + 1) = [c]"
  shows "slice_bound (length s) i < length s"
    and "slice_bound (length s) i < slice_bound (length s) (i + 1)"
    and "s ! slice_bound (length s) i = c"
proof -
  let ?lo = "slice_bound (length s) i" and ?hi = "slice_bound (length s) (i + 1)"
  from assms have "take (?hi - ?lo) (drop ?lo s) = [c]"
    by (simp add: py_slice_def Let_def)
  from take_drop_single [OF this]
  show "?lo < length s" and "?lo < ?hi" and "s ! ?lo = c" by simp_all
qed

lemma py_slice_one:
  assumes "py_slice s i (i + 1) = [c]"
  shows "py_index s i = Inr [c]"
proof (cases "i < 0")
  case False
  from py_slice_single(1) [OF assms] False have "nat i < length s"
    by (simp add: slice_bound_def)
  moreover from py_slice_single(3) [OF assms] False this have "s ! nat i = c"
    by (simp add: slice_bound_def)
  ultimately show ?thesis using False by (simp add: py_index_def Let_def)
next
  case True
  from py_slice_single(2) [OF assms] True have ge: "0 \<le> i + int (length s)"
    by (cases "i + 1 < 0") (simp_all add: slice_bound_def max_def split: if_splits)
  with py_slice_single(3) [OF assms] True have "s ! nat (i + int (length s)) = c"
    by (simp add: slice_bound_def max_def)
  with True ge show ?thesis by (simp add: py_index_def Let_def)
qed

lemma py_slice_one_nonneg:
  assumes "py_slice s i (i + 1) = [c]" and "- 1 \<le> i"
  shows "0 \<le> i \<and> i < int (length s)"
proof -
  have "\<not> i < 0"
  proof
    assume "i < 0"
    with assms(2) have "i = - 1" by simp
    with py_slice_single(2) [OF assms(1)] show False by (simp add: slice_bound_def)
  qed
  moreover from this py_slice_single(1) [OF assms(1)] have "i < int (length s)"
    by (simp add: slice_bound_def)
  ultimately show ?thesis by simp
qed

lemma COMPLEMENT_single:
  "COMPLEMENT ub = Some db \<Longrightarrow> (\<exists>c. ub = [c]) \<and> (\<exists>d. db = [d]) \<and> ub \<noteq> db"
  by (auto simp: COMPLEMENT_def split: if_splits)

lemma py_assert_baseD:
  "r \<in> set (fst (py_assert_base s p b rest)) \<Longrightarrow> py_index s p = Inr b \<and> r \<in> set (fst rest)"
  by (cases "py_index s p") (auto simp: py_assert_base_def split: if_splits)

lemma filtered_bodyD:
  assumes "r \<in> set (fst (py_assert_base s up ub
                (py_assert_base s down db
                  (gen_for (py_range lo hi) (\<lambda>sl. gen_yield (f sl))))))"
  shows "py_index s up = Inr ub \<and> py_index s down = Inr db
      \<and> (\<exists>sl. lo \<le> sl \<and> sl < hi \<and> f sl = Inr r)"
proof -
  from py_assert_baseD [OF assms] have a1: "py_index s up = Inr ub"
    and r1: "r \<in> set (fst (py_assert_base s down db
                  (gen_for (py_range lo hi) (\<lambda>sl. gen_yield (f sl)))))"
    by simp_all
  from py_assert_baseD [OF r1] have a2: "py_index s down = Inr db"
    and r2: "r \<in> set (fst (gen_for (py_range lo hi) (\<lambda>sl. gen_yield (f sl))))"
    by simp_all
  from in_gen_forD [OF r2] obtain sl where "sl \<in> set (py_range lo hi)"
    and "r \<in> set (fst (gen_yield (f sl)))" by blast
  then have "lo \<le> sl \<and> sl < hi \<and> f sl = Inr r"
    by (simp add: set_py_range in_gen_yieldD)
  with a1 a2 show ?thesis by blast
qed

lemma filtered_pairsD:
  assumes "r \<in> set (fst (filtered_pairs T fb ub db))"
  shows "\<exists>up down sl. 0 \<le> fb - max_dist T div 2
      \<and> fb + (max_dist T + 1) div 2 + 1 \<le> int (length (sequence T))
      \<and> fb - max_dist T div 2 - 1 \<le> up \<and> up < fb - min_dist T div 2 - 1
      \<and> py_index (sequence T) up = Inr ub
      \<and> fb + (min_dist T + 1) div 2 \<le> down \<and> down < fb + (max_dist T + 1) div 2 + 1
      \<and> py_index (sequence T) down = Inr db
      \<and> min_spacer T \<le> sl \<and> sl \<le> max_spacer T
      \<and> create_tal_pair T fb up down sl = Inr r
      \<and> up \<in> set (findAll (sequence T) ub
                (fb - max_dist T div 2 - 1) (Some (fb - min_dist T div 2 - 1)))
      \<and> down \<in> set (findAll (sequence T) db
                (fb + (min_dist T + 1) div 2) (Some (fb + (max_dist T + 1) div 2 + 1)))"
proof -
  let ?ups = "findAll (sequence T) ub
                (fb - max_dist T div 2 - 1) (Some (fb - min_dist T div 2 - 1))"
  let ?downs = "findAll (sequence T) db
                (fb + (min_dist T + 1) div 2) (Some (fb + (max_dist T + 1) div 2 + 1))"
  have guard: "\<not> (fb - max_dist T div 2 < 0
         \<or> fb + (max_dist T + 1) div 2 + 1 > int (length (sequence T)))"
  proof
    assume "fb - max_dist T div 2 < 0
         \<or> fb + (max_dist T + 1) div 2 + 1 > int (length (sequence T))"
    then have "filtered_pairs T fb ub db = ([], None)"
      unfolding filtered_pairs_def by (rule if_P)
    with assms show False by simp
  qed
  then have "filtered_pairs T fb ub db = gen_for ?ups (\<lambda>up_pos.
             gen_for ?downs (\<lambda>down_pos.
               py_assert_base (sequence T) up_pos ub
                (py_assert_base (sequence T) down_pos db
                  (gen_for (py_range (min_spacer T) (max_spacer T + 1)) (\<lambda>spacer_length.
                     gen_yield (create_tal_pair T fb up_pos down_pos spacer_length))))))"
    unfolding filtered_pairs_def Let_def by (rule if_not_P)
  with assms obtain up where up: "up \<in> set ?ups" and
    "r \<in> set (fst (gen_for ?downs (\<lambda>down_pos.
               py_assert_base (sequence T) up ub
                (py_assert_base (sequence T) down_pos db
                  (gen_for (py_range (min_spacer T) (max_spacer T + 1)) (\<lambda>spacer_length.
                     gen_yield (create_tal_pair T fb up down_pos spacer_length)))))))"
    using in_gen_forD by fastforce
  then obtain down where down: "down \<in> set ?downs" and
    body: "r \<in> set (fst (py_assert_base (sequence T) up ub
                (py_assert_base (sequence T) down db
                  (gen_for (py_range (min_spacer T) (max_spacer T + 1)) (\<lambda>spacer_length.
                     gen_yield (create_tal_pair T fb up down spacer_length))))))"
    using in_gen_forD by fastforce
  from filtered_bodyD [OF body] obtain sl where
    a: "py_index (sequence T) up = Inr ub" "py_index (sequence T) down = Inr db"
    and sl: "min_spacer T \<le> sl" "sl < max_spacer T + 1"
    and r: "create_tal_pair T fb up down sl = Inr r"
    by blast
  from findAllD [OF up] have u: "fb - max_dist T div 2 - 1 \<le> up" "up < fb - min_dist T div 2 - 1"
    by simp_all
  from findAllD [OF down] have d: "fb + (min_dist T + 1) div 2 \<le> down"
    "down < fb + (max_dist T + 1) div 2 + 1"
    by simp_all
  from guard have g: "0 \<le> fb - max_dist T div 2"
    "fb + (max_dist T + 1) div 2 + 1 \<le> int (length (sequence T))" by simp_all
  from sl(2) have sl2: "sl \<le> max_spacer T" by simp
  show ?thesis
    using g u a(1) d a(2) sl(1) sl2 r up down
    by (intro exI [of _ up] exI [of _ down] exI [of _ sl] conjI)
qed

subsection \<open>The whole enumeration and its exceptions\<close>

lemma pairs_for_baseD:
  assumes "r \<in> set (fst (pairs_for_base T ub))"
  shows "\<exists>db. COMPLEMENT ub = Some db
     \<and> (case filter_base T of
          Some fb \<Rightarrow> r \<in> set (fst (filtered_pairs T fb ub db))
        | None \<Rightarrow> r \<in> set (fst (unfiltered_pairs T ub)))"
  using assms by (auto simp: pairs_for_base_def split: option.splits)

lemma find_tal_pairsD:
  assumes "r \<in> set (fst (find_tal_pairs_for_seq T))"
  shows "\<exists>ub\<in>set (upstream_bases T). r \<in> set (fst (pairs_for_base T ub))"
  using assms unfolding find_tal_pairs_for_seq_def by (rule in_gen_forD)

lemma py_index_in_range:
  "0 \<le> i \<Longrightarrow> i < int (length s) \<Longrightarrow> py_index s i = Inr [s ! nat i]"
  by (simp add: py_index_def Let_def)

lemma create_tal_pair_ok:
  assumes "py_index (sequence T) up = Inr u" and "py_index (sequence T) down = Inr d"
  shows "\<exists>r. create_tal_pair T c up down sl = Inr r"
  using assms by (simp add: create_tal_pair_def Let_def)

lemma snd_gen_yield_Inr: "snd (gen_yield (Inr x)) = None"
  by (simp add: gen_yield_def)

lemma snd_yield_create:
  assumes "py_index (sequence T) up = Inr u" and "py_index (sequence T) down = Inr d"
  shows "snd (gen_yield (create_tal_pair T c up down sl)) = None"
proof -
  from create_tal_pair_ok [OF assms] obtain r where "create_tal_pair T c up down sl = Inr r"
    by blast
  then show ?thesis by (simp add: snd_gen_yield_Inr)
qed

lemma snd_anchor_pair_records:
  assumes "py_index (sequence T) t = Inr u" and "py_index (sequence T) j = Inr d"
  shows "snd (anchor_pair_records T t j) = None"
  unfolding anchor_pair_records_def
  by (intro snd_gen_for_None snd_yield_create [OF assms])

lemma snd_emit_queue:
  assumes "\<And>t. t \<in> set q \<Longrightarrow> \<exists>u. py_index (sequence T) t = Inr u"
    and "py_index (sequence T) j = Inr d"
  shows "snd (emit_queue T j mx q) = None"
  using assms(1)
proof (induction q)
  case Nil
  then show ?case by simp
next
  case (Cons t ts)
  from Cons.prems obtain u where u: "py_index (sequence T) t = Inr u" by auto
  have "snd (anchor_pair_records T t j) = None"
    using u assms(2) by (rule snd_anchor_pair_records)
  moreover have "snd (emit_queue T j mx ts) = None" using Cons by simp
  ultimately show ?case by (simp add: snd_gen_then_None)
qed

lemma snd_scan:
  assumes "\<And>j. j \<in> set js \<Longrightarrow> 0 \<le> j \<and> j < int (length (sequence T))"
    and "\<And>t. t \<in> set q \<Longrightarrow> 0 \<le> t \<and> t < int (length (sequence T))"
  shows "snd (scan T ub js q) = None"
  using assms
proof (induction js arbitrary: q)
  case Nil
  then show ?case by simp
next
  case (Cons j js)
  have j: "0 \<le> j" "j < int (length (sequence T))" using Cons.prems(1) by simp_all
  then have ch: "py_index (sequence T) j = Inr [sequence T ! nat j]"
    by (rule py_index_in_range)
  have js: "\<And>j'. j' \<in> set js \<Longrightarrow> 0 \<le> j' \<and> j' < int (length (sequence T))"
    using Cons.prems(1) by simp
  have 1: "snd (scan T ub js (q @ [j])) = None"
    using js Cons.prems(2) j by (intro Cons.IH) auto
  have 2: "snd (scan T ub js q) = None"
    using js Cons.prems(2) by (intro Cons.IH) auto
  let ?q = "evict q (j - max_dist T)"
  have q': "\<And>t. t \<in> set ?q \<Longrightarrow> 0 \<le> t \<and> t < int (length (sequence T))"
    using Cons.prems(2) set_evict by blast
  have 3: "snd (scan T ub js ?q) = None"
    using js q' by (intro Cons.IH) auto
  have "\<And>t. t \<in> set ?q \<Longrightarrow> \<exists>u. py_index (sequence T) t = Inr u"
    using q' py_index_in_range by blast
  then have 4: "snd (emit_queue T j (j - min_dist T) ?q) = None"
    using ch by (rule snd_emit_queue)
  show ?case using ch 1 2 3 4 by (simp add: Let_def snd_gen_then_None)
qed

lemma snd_unfiltered_pairs: "snd (unfiltered_pairs T ub) = None"
  unfolding unfiltered_pairs_def by (rule snd_scan) (simp_all add: set_py_range)

lemma py_assert_base_pass: "py_index s p = Inr b \<Longrightarrow> py_assert_base s p b rest = rest"
  by (simp add: py_assert_base_def)

lemma findAll_index:
  assumes "i \<in> set (findAll s [c] a (Some b))"
  shows "py_index s i = Inr [c]"
proof -
  from findAllD [OF assms] have "py_slice s i (i + 1) = [c]" by simp
  then show ?thesis by (rule py_slice_one)
qed

lemma snd_filtered_pairs:
  assumes "COMPLEMENT ub = Some db"
  shows "snd (filtered_pairs T fb ub db) = None"
proof -
  from COMPLEMENT_single [OF assms] obtain c d where cd: "ub = [c]" "db = [d]" by blast
  let ?ups = "findAll (sequence T) ub
                (fb - max_dist T div 2 - 1) (Some (fb - min_dist T div 2 - 1))"
  let ?downs = "findAll (sequence T) db
                (fb + (min_dist T + 1) div 2) (Some (fb + (max_dist T + 1) div 2 + 1))"
  have body: "snd (py_assert_base (sequence T) up ub
                (py_assert_base (sequence T) down db
                  (gen_for (py_range (min_spacer T) (max_spacer T + 1)) (\<lambda>spacer_length.
                     gen_yield (create_tal_pair T fb up down spacer_length))))) = None"
    if "up \<in> set ?ups" and "down \<in> set ?downs" for up down
  proof -
    from that cd have u: "py_index (sequence T) up = Inr ub"
      and d: "py_index (sequence T) down = Inr db"
      using findAll_index by blast+
    have "snd (gen_for (py_range (min_spacer T) (max_spacer T + 1)) (\<lambda>spacer_length.
                     gen_yield (create_tal_pair T fb up down spacer_length))) = None"
      by (intro snd_gen_for_None snd_yield_create [OF u d])
    then show ?thesis by (simp add: py_assert_base_pass u d)
  qed
  have "snd (gen_for ?ups (\<lambda>up_pos.
             gen_for ?downs (\<lambda>down_pos.
               py_assert_base (sequence T) up_pos ub
                (py_assert_base (sequence T) down_pos db
                  (gen_for (py_range (min_spacer T) (max_spacer T + 1)) (\<lambda>spacer_length.
                     gen_yield (create_tal_pair T fb up_pos down_pos spacer_length))))))) = None"
    by (intro snd_gen_for_None body)
  then show ?thesis by (simp add: filtered_pairs_def Let_def)
qed

lemma snd_pairs_for_base:
  "snd (pairs_for_base T ub) =
     (case COMPLEMENT ub of None \<Rightarrow> Some (KeyError ub) | Some db \<Rightarrow> None)"
  by (simp add: pairs_for_base_def snd_filtered_pairs snd_unfiltered_pairs
        split: option.splits)

lemma snd_gen_for_find:
  assumes "\<And>x. x \<in> set xs \<Longrightarrow> snd (body x) = (if bad x then Some (err x) else None)"
  shows "snd (gen_for xs body) =
     (case List.find bad xs of None \<Rightarrow> None | Some x \<Rightarrow> Some (err x))"
  using assms
proof (induction xs)
  case Nil
  then show ?case by simp
next
  case (Cons x xs)
  then show ?case by (cases "bad x") (simp_all add: gen_then_def)
qed

lemma snd_find_tal_pairs:
  "snd (find_tal_pairs_for_seq T) =
     (case List.find (\<lambda>ub. COMPLEMENT ub = None) (upstream_bases T) of
        None \<Rightarrow> None | Some ub \<Rightarrow> Some (KeyError ub))"
  unfolding find_tal_pairs_for_seq_def
  by (rule snd_gen_for_find) (simp add: snd_pairs_for_base split: option.splits)

subsection \<open>Emitted records\<close>

lemma unfiltered_emitted:
  assumes "filter_base T = None" and "r \<in> set (fst (find_tal_pairs_for_seq T))"
  shows "\<exists>ub db c t j sl. ub \<in> set (upstream_bases T) \<and> COMPLEMENT ub = Some db
      \<and> 0 \<le> t \<and> j < int (length (sequence T))
      \<and> py_index (sequence T) t = Inr ub \<and> py_index (sequence T) j = Inr db
      \<and> j - max_dist T \<le> t \<and> t \<le> j - min_dist T
      \<and> min_spacer T \<le> sl \<and> sl \<le> max_spacer T
      \<and> t + min_dist T div 2 \<le> c \<and> c < j - min_dist T div 2
      \<and> create_tal_pair T c t j sl = Inr r"
proof -
  from find_tal_pairsD [OF assms(2)] obtain ub where ub: "ub \<in> set (upstream_bases T)"
    and "r \<in> set (fst (pairs_for_base T ub))" by blast
  from pairs_for_baseD [OF this(2)] assms(1)
  have "r \<in> set (fst (unfiltered_pairs T ub))" by auto
  from unfiltered_pairsD [OF this] obtain j t ch sl c where
    "0 \<le> t" "j < int (length (sequence T))"
    "py_index (sequence T) t = Inr ub"
    "py_index (sequence T) j = Inr ch" "COMPLEMENT ub = Some ch"
    "j - max_dist T \<le> t" "t \<le> j - min_dist T"
    "min_spacer T \<le> sl" "sl \<le> max_spacer T"
    "t + min_dist T div 2 \<le> c" "c < j - min_dist T div 2"
    "create_tal_pair T c t j sl = Inr r"
    by blast
  with ub show ?thesis
    by (intro exI [of _ ub] exI [of _ ch] exI [of _ c] exI [of _ t] exI [of _ j]
          exI [of _ sl]) simp
qed

lemma filtered_emitted:
  assumes "filter_base T = Some fb" and "r \<in> set (fst (find_tal_pairs_for_seq T))"
  shows "\<exists>ub db up down sl. ub \<in> set (upstream_bases T) \<and> COMPLEMENT ub = Some db
      \<and> 0 \<le> fb - max_dist T div 2
      \<and> fb + (max_dist T + 1) div 2 + 1 \<le> int (length (sequence T))
      \<and> fb - max_dist T div 2 - 1 \<le> up \<and> up < fb - min_dist T div 2 - 1
      \<and> py_index (sequence T) up = Inr ub
      \<and> fb + (min_dist T + 1) div 2 \<le> down \<and> down < fb + (max_dist T + 1) div 2 + 1
      \<and> py_index (sequence T) down = Inr db
      \<and> min_spacer T \<le> sl \<and> sl \<le> max_spacer T
      \<and> create_tal_pair T fb up down sl = Inr r
      \<and> up \<in> set (findAll (sequence T) ub
                (fb - max_dist T div 2 - 1) (Some (fb - min_dist T div 2 - 1)))
      \<and> down \<in> set (findAll (sequence T) db
                (fb + (min_dist T + 1) div 2) (Some (fb + (max_dist T + 1) div 2 + 1)))"
proof -
  from find_tal_pairsD [OF assms(2)] obtain ub where ub: "ub \<in> set (upstream_bases T)"
    and "r \<in> set (fst (pairs_for_base T ub))" by blast
  from pairs_for_baseD [OF this(2)] assms(1) obtain db where db: "COMPLEMENT ub = Some db"
    and "r \<in> set (fst (filtered_pairs T fb ub db))" by auto
  from filtered_pairsD [OF this(2)] ub db show ?thesis by blast
qed

lemma create_tal_pair_fields:
  assumes "create_tal_pair T c up down sl = Inr r"
  shows "Cut_Site r = c" and "TAL1_start r = up + 1" and "TAL2_start r = down - 1"
    and "Spacer_length r = sl" and "Sequence_Name r = sequence_id T"
    and "TAL1_length r = int (length (py_slice (sequence T) (tal1_start up) (tal1_end c sl)))"
    and "TAL2_length r = int (length (py_slice (sequence T) (tal2_start c sl) (tal2_end down)))"
    and "Spacer_range r = py_str (tal1_end c sl) @ ''-'' @ py_str (tal2_start c sl)"
  using assms
  by (auto simp: create_tal_pair_def Let_def tal1_start_def tal2_end_def
      split: sum.splits)

lemma evict_retains: "t \<in> set q \<Longrightarrow> \<not> t < m \<Longrightarrow> t \<in> set (evict q m)"
  by (induction q) auto

lemma init_fields:
  "min_dist (load_record (FindTALTask_init fa mins maxs amin amax outp fb ubs) rid rseq)
     = 2 * amin + mins"
  "max_dist (load_record (FindTALTask_init fa mins maxs amin amax outp fb ubs) rid rseq)
     = 2 * amax + maxs"
  "min_spacer (load_record (FindTALTask_init fa mins maxs amin amax outp fb ubs) rid rseq)
     = mins"
  "max_spacer (load_record (FindTALTask_init fa mins maxs amin amax outp fb ubs) rid rseq)
     = maxs"
  "filter_base (load_record (FindTALTask_init fa mins maxs amin amax outp fb ubs) rid rseq)
     = fb"
  "upstream_bases (load_record (FindTALTask_init fa mins maxs amin amax outp fb ubs) rid rseq)
     = ubs"
  "array_min (load_record (FindTALTask_init fa mins maxs amin amax outp fb ubs) rid rseq)
     = amin"
  "array_max (load_record (FindTALTask_init fa mins maxs amin amax outp fb ubs) rid rseq)
     = amax"
  by (simp_all add: load_record_def FindTALTask_init_def)


lemma py_range_empty: "b \<le> a \<Longrightarrow> py_range a b = []"
  by (simp add: py_range_def)

lemma gen_for_all_empty:
  "(\<And>x. x \<in> set xs \<Longrightarrow> body x = ([], None)) \<Longrightarrow> gen_for xs body = ([], None)"
  by (induction xs) (simp_all add: gen_then_def)

lemma anchor_pair_records_empty:
  assumes "j - t \<le> 2 * (min_dist T div 2)"
  shows "anchor_pair_records T t j = ([], None)"
proof -
  from assms have "py_range (t + min_dist T div 2) (j - min_dist T div 2) = []"
    by (intro py_range_empty) simp
  then show ?thesis
    unfolding anchor_pair_records_def by (intro gen_for_all_empty) simp
qed

subsection \<open>Empty enumerations\<close>

lemma no_records_spacer_inverted:
  assumes "max_spacer T < min_spacer T"
  shows "fst (find_tal_pairs_for_seq T) = []"
proof (rule ccontr)
  assume "fst (find_tal_pairs_for_seq T) \<noteq> []"
  then obtain r where r: "r \<in> set (fst (find_tal_pairs_for_seq T))"
    by (cases "fst (find_tal_pairs_for_seq T)") auto
  have "\<exists>sl. min_spacer T \<le> sl \<and> sl \<le> max_spacer T"
  proof (cases "filter_base T")
    case None
    from unfiltered_emitted [OF None r] show ?thesis by blast
  next
    case (Some fb)
    from filtered_emitted [OF Some r] show ?thesis by blast
  qed
  with assms show False by auto
qed

lemma no_records_dist_inverted:
  assumes "max_dist T < min_dist T"
  shows "fst (find_tal_pairs_for_seq T) = []"
proof (rule ccontr)
  assume "fst (find_tal_pairs_for_seq T) \<noteq> []"
  then obtain r where r: "r \<in> set (fst (find_tal_pairs_for_seq T))"
    by (cases "fst (find_tal_pairs_for_seq T)") auto
  show False
  proof (cases "filter_base T")
    case None
    from unfiltered_emitted [OF None r] obtain t j where
      "j - max_dist T \<le> t" "t \<le> j - min_dist T" by blast
    with assms show False by simp
  next
    case (Some fb)
    from filtered_emitted [OF Some r] obtain up where
      "fb - max_dist T div 2 - 1 \<le> up" "up < fb - min_dist T div 2 - 1" by blast
    then have "min_dist T div 2 < max_dist T div 2" by simp
    moreover from assms have "max_dist T div 2 \<le> min_dist T div 2"
      by (intro zdiv_mono1) simp_all
    ultimately show False by simp
  qed
qed

lemma no_records_short_sequence:
  assumes "int (length (sequence T)) < min_dist T"
  shows "fst (find_tal_pairs_for_seq T) = []"
proof (rule ccontr)
  assume "fst (find_tal_pairs_for_seq T) \<noteq> []"
  then obtain r where r: "r \<in> set (fst (find_tal_pairs_for_seq T))"
    by (cases "fst (find_tal_pairs_for_seq T)") auto
  show False
  proof (cases "filter_base T")
    case None
    from unfiltered_emitted [OF None r] obtain t j where
      "0 \<le> t" "j < int (length (sequence T))" "t \<le> j - min_dist T" by blast
    with assms show False by simp
  next
    case (Some fb)
    from filtered_emitted [OF Some r] obtain up where
      g: "0 \<le> fb - max_dist T div 2"
         "fb + (max_dist T + 1) div 2 + 1 \<le> int (length (sequence T))"
      and u: "fb - max_dist T div 2 - 1 \<le> up" "up < fb - min_dist T div 2 - 1" by blast
    from u have lt: "min_dist T div 2 < max_dist T div 2" by simp
    have "max_dist T div 2 + (max_dist T + 1) div 2 = max_dist T" by presburger
    with g have len: "max_dist T + 1 \<le> int (length (sequence T))" by linarith
    have "min_dist T \<le> max_dist T"
    proof (rule ccontr)
      assume "\<not> min_dist T \<le> max_dist T"
      then have "max_dist T div 2 \<le> min_dist T div 2" by (intro zdiv_mono1) simp_all
      with lt show False by simp
    qed
    with len assms show False by simp
  qed
qed

lemma guard_skips:
  assumes "filter_base T = Some fb" and "COMPLEMENT ub = Some db"
    and "fb - max_dist T div 2 < 0
         \<or> fb + (max_dist T + 1) div 2 + 1 > int (length (sequence T))"
  shows "pairs_for_base T ub = ([], None)"
proof -
  from assms(3) have "filtered_pairs T fb ub db = ([], None)"
    unfolding filtered_pairs_def by (rule if_P)
  with assms(1,2) show ?thesis by (simp add: pairs_for_base_def)
qed

subsection \<open>Slice lengths and halves\<close>

lemma py_slice_length:
  assumes "0 \<le> a" and "a \<le> b" and "b \<le> int (length s)"
  shows "int (length (py_slice s a b)) = b - a"
proof -
  from assms have a: "slice_bound (length s) a = nat a"
    by (simp add: slice_bound_def)
  from assms have b: "slice_bound (length s) b = nat b"
    by (simp add: slice_bound_def)
  from assms have "nat b - nat a \<le> length s - nat a" by simp
  then have "length (py_slice s a b) = nat b - nat a"
    by (simp add: py_slice_def Let_def a b)
  with assms show ?thesis by simp
qed

lemma findAll_nonneg:
  assumes "i \<in> set (findAll s [c] a (Some b))" and "- 1 \<le> a"
  shows "0 \<le> i"
proof -
  from findAllD [OF assms(1)] have "a \<le> i" and "py_slice s i (i + 1) = [c]" by simp_all
  with assms(2) py_slice_one_nonneg [of s i c] show ?thesis by simp
qed

lemma half_mono: "(a::int) \<le> b \<Longrightarrow> a div 2 \<le> b div 2"
  by (rule zdiv_mono1) simp_all

lemma half_succ: "((a::int) + 1) div 2 \<le> a div 2 + 1"
  by presburger

lemma half_le_half_succ: "(a::int) div 2 \<le> (a + 1) div 2"
  by presburger

lemma half_pos: "(0::int) < a \<Longrightarrow> 0 \<le> a div 2 \<and> 1 \<le> (a + 1) div 2"
  by presburger

lemma halves_sum: "(a::int) div 2 + (a + 1) div 2 = a"
  by presburger

lemma half_even_plus: "(2 * (a::int) + b) div 2 = a + b div 2"
  by presburger

lemma lengths_from_quadruple:
  assumes cr: "create_tal_pair T c up down sl = Inr r"
    and "0 \<le> up" and "up + 1 \<le> c - sl div 2" and "c - sl div 2 \<le> int (length (sequence T))"
    and "0 \<le> c + (sl + 1) div 2 - 1" and "c + (sl + 1) div 2 - 1 \<le> down"
    and "down \<le> int (length (sequence T))"
  shows "TAL1_length r = tal1_end c sl - tal1_start up
       \<and> TAL2_length r = tal2_end down - tal2_start c sl
       \<and> 0 \<le> tal1_end c sl - tal1_start up
       \<and> 0 \<le> tal2_end down - tal2_start c sl"
proof -
  have 1: "int (length (py_slice (sequence T) (tal1_start up) (tal1_end c sl)))
      = tal1_end c sl - tal1_start up"
    using assms(2-4) by (intro py_slice_length) (simp_all add: tal1_start_def tal1_end_def)
  have 2: "int (length (py_slice (sequence T) (tal2_start c sl) (tal2_end down)))
      = tal2_end down - tal2_start c sl"
    using assms(5-7) by (intro py_slice_length) (simp_all add: tal2_start_def tal2_end_def)
  from assms(3) have 3: "0 \<le> tal1_end c sl - tal1_start up"
    by (simp add: tal1_start_def tal1_end_def)
  from assms(6) have 4: "0 \<le> tal2_end down - tal2_start c sl"
    by (simp add: tal2_start_def tal2_end_def)
  from create_tal_pair_fields(6,7) [OF cr] 1 2 3 4 show ?thesis by simp
qed

subsection \<open>The attributes the generator reads\<close>

lemma gen_for_cong_body:
  "(\<And>x. x \<in> set xs \<Longrightarrow> f x = g x) \<Longrightarrow> gen_for xs f = gen_for xs g"
  by (induction xs) simp_all

lemma create_tal_pair_reads:
  assumes "sequence T' = sequence T" and "sequence_id T' = sequence_id T"
  shows "create_tal_pair T' c up down sl = create_tal_pair T c up down sl"
  unfolding create_tal_pair_def assms by (rule refl)

lemma anchor_pair_records_reads:
  assumes "sequence T' = sequence T" and "sequence_id T' = sequence_id T"
    and "min_spacer T' = min_spacer T" and "max_spacer T' = max_spacer T"
    and "min_dist T' = min_dist T"
  shows "anchor_pair_records T' t j = anchor_pair_records T t j"
  unfolding anchor_pair_records_def assms create_tal_pair_reads [OF assms(1,2)]
  by (rule refl)

lemma emit_queue_reads:
  assumes "sequence T' = sequence T" and "sequence_id T' = sequence_id T"
    and "min_spacer T' = min_spacer T" and "max_spacer T' = max_spacer T"
    and "min_dist T' = min_dist T"
  shows "emit_queue T' j mx q = emit_queue T j mx q"
  by (induction q) (simp_all add: anchor_pair_records_reads [OF assms])

lemma scan_reads:
  assumes "sequence T' = sequence T" and "sequence_id T' = sequence_id T"
    and "min_spacer T' = min_spacer T" and "max_spacer T' = max_spacer T"
    and "min_dist T' = min_dist T" and "max_dist T' = max_dist T"
  shows "scan T' ub js q = scan T ub js q"
proof (induction js arbitrary: q)
  case Nil
  show ?case by simp
next
  case (Cons j js)
  show ?case
    by (simp add: Cons.IH assms(1,6,5) emit_queue_reads [OF assms(1-5)]
          split: sum.splits)
qed

lemma filtered_pairs_reads:
  assumes "sequence T' = sequence T" and "sequence_id T' = sequence_id T"
    and "min_spacer T' = min_spacer T" and "max_spacer T' = max_spacer T"
    and "min_dist T' = min_dist T" and "max_dist T' = max_dist T"
  shows "filtered_pairs T' fb ub db = filtered_pairs T fb ub db"
  unfolding filtered_pairs_def assms create_tal_pair_reads [OF assms(1,2)] by (rule refl)

lemma find_tal_pairs_reads:
  assumes "sequence T' = sequence T" and "sequence_id T' = sequence_id T"
    and "min_spacer T' = min_spacer T" and "max_spacer T' = max_spacer T"
    and "min_dist T' = min_dist T" and "max_dist T' = max_dist T"
    and "filter_base T' = filter_base T" and "upstream_bases T' = upstream_bases T"
  shows "find_tal_pairs_for_seq T' = find_tal_pairs_for_seq T"
proof -
  have "pairs_for_base T' ub = pairs_for_base T ub" for ub
    unfolding pairs_for_base_def unfiltered_pairs_def assms(1,7)
      scan_reads [OF assms(1-6)] filtered_pairs_reads [OF assms(1-6)]
    by (rule refl)
  then have "pairs_for_base T' = pairs_for_base T" by (rule ext)
  then show ?thesis
    by (simp add: find_tal_pairs_for_seq_def assms(8))
qed

subsection \<open>The state transformer against the generator\<close>

lemma self_view_same:
  "list_objects \<sigma>' = list_objects \<sigma> \<Longrightarrow> self_object \<sigma>' = self_object \<sigma>
     \<Longrightarrow> self_view \<sigma>' = self_view \<sigma>"
  by (simp add: self_view_def)

lemma gen_then_error: "snd g = Some e \<Longrightarrow> gen_then g h = g"
  by (simp add: gen_then_def)

lemma scan_st_refines:
  "fst (scan_st ub js \<sigma>) = scan (self_view \<sigma>) ub js (frame_upstream_q \<sigma>)
   \<and> list_objects (snd (scan_st ub js \<sigma>)) = list_objects \<sigma>
   \<and> self_object (snd (scan_st ub js \<sigma>)) = self_object \<sigma>"
proof (induction js arbitrary: \<sigma>)
  case Nil
  show ?case by simp
next
  case (Cons j js)
  show ?case
  proof (cases "py_index (sequence (self_view \<sigma>)) j")
    case (Inl e)
    then show ?thesis by simp
  next
    case (Inr ch)
    show ?thesis
    proof (cases "ch = ub")
      case True
      let ?s = "deque_append j \<sigma>"
      have k: "list_objects ?s = list_objects \<sigma>" "self_object ?s = self_object \<sigma>"
        and q: "frame_upstream_q ?s = frame_upstream_q \<sigma> @ [j]"
        by (simp_all add: deque_append_def)
      note v = self_view_same [OF k]
      from Cons.IH [of ?s] Inr True show ?thesis by (simp add: v q k)
    next
      case False
      show ?thesis
      proof (cases "COMPLEMENT ub = Some ch")
        case nc: False
        from Cons.IH [of \<sigma>] Inr False nc show ?thesis by simp
      next
        case True
        let ?s = "popleft_while (j - max_dist (self_view \<sigma>)) \<sigma>"
        let ?q = "evict (frame_upstream_q \<sigma>) (j - max_dist (self_view \<sigma>))"
        let ?g = "emit_queue (self_view \<sigma>) j (j - min_dist (self_view \<sigma>)) ?q"
        have k: "list_objects ?s = list_objects \<sigma>" "self_object ?s = self_object \<sigma>"
          and q: "frame_upstream_q ?s = ?q"
          by (simp_all add: popleft_while_def)
        note v = self_view_same [OF k]
        have st: "scan_st ub (j # js) \<sigma> =
            (case snd ?g of Some e \<Rightarrow> (?g, ?s)
             | None \<Rightarrow> (gen_then ?g (fst (scan_st ub js ?s)), snd (scan_st ub js ?s)))"
          using Inr False True by (simp add: Let_def v q cong: option.case_cong)
        have pu: "scan (self_view \<sigma>) ub (j # js) (frame_upstream_q \<sigma>) =
            gen_then ?g (scan (self_view \<sigma>) ub js ?q)"
          using Inr False True by (simp add: Let_def)
        show ?thesis
        proof (cases "snd ?g")
          case (Some e)
          with st pu k show ?thesis by (simp add: gen_then_error)
        next
          case None
          from Cons.IH [of ?s] have
            "fst (scan_st ub js ?s) = scan (self_view \<sigma>) ub js ?q"
            "list_objects (snd (scan_st ub js ?s)) = list_objects \<sigma>"
            "self_object (snd (scan_st ub js ?s)) = self_object \<sigma>"
            by (simp_all add: v q k)
          with None st pu show ?thesis by simp
        qed
      qed
    qed
  qed
qed

lemma pairs_for_base_st_refines:
  "fst (pairs_for_base_st ub \<sigma>) = pairs_for_base (self_view \<sigma>) ub
   \<and> list_objects (snd (pairs_for_base_st ub \<sigma>)) = list_objects \<sigma>
   \<and> self_object (snd (pairs_for_base_st ub \<sigma>)) = self_object \<sigma>"
proof -
  let ?s = "new_deque \<sigma>"
  let ?js = "py_range 0 (int (length (sequence (self_view \<sigma>))))"
  have k: "list_objects ?s = list_objects \<sigma>" "self_object ?s = self_object \<sigma>"
    and q: "frame_upstream_q ?s = []"
    by (simp_all add: new_deque_def)
  note v = self_view_same [OF k]
  from scan_st_refines [of ub ?js ?s]
  have sc: "fst (scan_st ub ?js ?s) = unfiltered_pairs (self_view \<sigma>) ub"
    "list_objects (snd (scan_st ub ?js ?s)) = list_objects \<sigma>"
    "self_object (snd (scan_st ub ?js ?s)) = self_object \<sigma>"
    by (simp_all add: v q k unfiltered_pairs_def)
  show ?thesis
  proof (cases "COMPLEMENT ub")
    case None
    then show ?thesis by (simp add: pairs_for_base_st_def pairs_for_base_def)
  next
    case (Some db)
    show ?thesis
    proof (cases "filter_base (self_view \<sigma>)")
      case None
      with Some sc show ?thesis by (simp add: pairs_for_base_st_def pairs_for_base_def)
    next
      case fb: (Some fb)
      with Some show ?thesis by (simp add: pairs_for_base_st_def pairs_for_base_def)
    qed
  qed
qed

lemma bases_loop_st_refines:
  "fst (bases_loop_st ubs \<sigma>) = gen_for ubs (pairs_for_base (self_view \<sigma>))
   \<and> list_objects (snd (bases_loop_st ubs \<sigma>)) = list_objects \<sigma>
   \<and> self_object (snd (bases_loop_st ubs \<sigma>)) = self_object \<sigma>"
proof (induction ubs arbitrary: \<sigma>)
  case Nil
  show ?case by simp
next
  case (Cons ub ubs)
  let ?s = "snd (pairs_for_base_st ub \<sigma>)"
  from pairs_for_base_st_refines [of ub \<sigma>] have
    f: "fst (pairs_for_base_st ub \<sigma>) = pairs_for_base (self_view \<sigma>) ub"
    and k: "list_objects ?s = list_objects \<sigma>" "self_object ?s = self_object \<sigma>"
    by simp_all
  note v = self_view_same [OF k]
  show ?case
  proof (cases "snd (pairs_for_base (self_view \<sigma>) ub)")
    case (Some e)
    with f k show ?thesis by (simp add: Let_def gen_then_error)
  next
    case None
    from Cons.IH [of ?s] have
      "fst (bases_loop_st ubs ?s) = gen_for ubs (pairs_for_base (self_view \<sigma>))"
      "list_objects (snd (bases_loop_st ubs ?s)) = list_objects \<sigma>"
      "self_object (snd (bases_loop_st ubs ?s)) = self_object \<sigma>"
      by (simp_all add: v k)
    with None f show ?thesis by (simp add: Let_def)
  qed
qed

lemma find_tal_pairs_st_refines:
  "fst (find_tal_pairs_st \<sigma>) = find_tal_pairs_for_seq (self_view \<sigma>)
   \<and> list_objects (snd (find_tal_pairs_st \<sigma>)) = list_objects \<sigma>
   \<and> self_object (snd (find_tal_pairs_st \<sigma>)) = self_object \<sigma>"
  unfolding find_tal_pairs_st_def find_tal_pairs_for_seq_def
  by (rule bases_loop_st_refines)

lemma self_view_new:
  "self_view \<lparr> list_objects = h,
       self_object = assign_record (FindTALTask_new fa mins maxs amin amax outp fb ubs) rid rseq,
       frame_upstream_q = q \<rparr>
   = load_record (FindTALTask_init fa mins maxs amin amax outp fb
       (h (case ubs of None \<Rightarrow> default_upstream_bases | Some a \<Rightarrow> a))) rid rseq"
  by (simp add: self_view_def assign_record_def FindTALTask_new_def load_record_def
        FindTALTask_init_def)

section \<open>The claims\<close>

subsection \<open>C1: distance and spacer bounds of the unfiltered mode\<close>

text \<open>
  C1. For a task built by \<open>__init__\<close> with \<open>filter_base = None\<close> and loaded with a
  sequence, every record the generator yields was built from a quadruple whose anchor
  distance \<open>down_pos - up_pos\<close> lies between \<open>min_dist = 2*array_min + min_spacer\<close>
  and \<open>max_dist = 2*array_max + max_spacer\<close> and whose spacer length lies between
  \<open>min_spacer\<close> and \<open>max_spacer\<close>. The eviction compares with strict \<open><\<close>: an
  anchor of the queue at exactly \<open>j - max_dist\<close> is still in the queue after it.
\<close>

theorem unfiltered_distance_and_spacer_bounds:
  assumes "T = load_record (FindTALTask_init fa mins maxs amin amax outp None ubs) rid rseq"
  shows "(\<forall>r\<in>set (fst (find_tal_pairs_for_seq T)).
           \<exists>cut_site up_pos down_pos spacer_length.
             create_tal_pair T cut_site up_pos down_pos spacer_length = Inr r
           \<and> 2 * amin + mins \<le> down_pos - up_pos
           \<and> down_pos - up_pos \<le> 2 * amax + maxs
           \<and> mins \<le> spacer_length \<and> spacer_length \<le> maxs
           \<and> Spacer_length r = spacer_length)
       \<and> (\<forall>q j. j - max_dist T \<in> set q
             \<longrightarrow> j - max_dist T \<in> set (evict q (j - max_dist T)))"
proof (intro conjI ballI allI impI)
  fix r assume r: "r \<in> set (fst (find_tal_pairs_for_seq T))"
  have fb: "filter_base T = None" and md: "min_dist T = 2 * amin + mins"
    and Md: "max_dist T = 2 * amax + maxs" and ms: "min_spacer T = mins"
    and Ms: "max_spacer T = maxs"
    unfolding assms by (rule init_fields)+
  from unfiltered_emitted [OF fb r] obtain c t j sl where
    "j - max_dist T \<le> t" "t \<le> j - min_dist T"
    "min_spacer T \<le> sl" "sl \<le> max_spacer T"
    and cr: "create_tal_pair T c t j sl = Inr r"
    by blast
  then have "2 * amin + mins \<le> j - t" "j - t \<le> 2 * amax + maxs" "mins \<le> sl" "sl \<le> maxs"
    unfolding md Md ms Ms by simp_all
  with cr create_tal_pair_fields(4) [OF cr]
  show "\<exists>cut_site up_pos down_pos spacer_length.
             create_tal_pair T cut_site up_pos down_pos spacer_length = Inr r
           \<and> 2 * amin + mins \<le> down_pos - up_pos
           \<and> down_pos - up_pos \<le> 2 * amax + maxs
           \<and> mins \<le> spacer_length \<and> spacer_length \<le> maxs
           \<and> Spacer_length r = spacer_length"
    by (intro exI [of _ c] exI [of _ t] exI [of _ j] exI [of _ sl]) simp
next
  fix q :: "int list" and j
  assume "j - max_dist T \<in> set q"
  then show "j - max_dist T \<in> set (evict q (j - max_dist T))"
    by (rule evict_retains) simp
qed

text \<open>
  On \<open>small_task\<close> the first record comes from the anchors 0 and 4, at distance exactly
  \<open>max_dist = 4\<close>: the boundary anchor is kept and emitted.
\<close>

theorem unfiltered_distance_and_spacer_bounds_witness:
  "hd (fst (find_tal_pairs_for_seq small_task)) \<in> set (fst (find_tal_pairs_for_seq small_task))
   \<and> (\<exists>cut_site up_pos down_pos spacer_length.
         create_tal_pair small_task cut_site up_pos down_pos spacer_length
           = Inr (hd (fst (find_tal_pairs_for_seq small_task)))
       \<and> 2 * 1 + 1 \<le> down_pos - up_pos \<and> down_pos - up_pos \<le> 2 * 1 + 2
       \<and> 1 \<le> spacer_length \<and> spacer_length \<le> 2
       \<and> Spacer_length (hd (fst (find_tal_pairs_for_seq small_task))) = spacer_length)
   \<and> create_tal_pair small_task 1 0 4 1 = Inr (hd (fst (find_tal_pairs_for_seq small_task)))
   \<and> 4 - 0 = max_dist small_task
   \<and> 4 - max_dist small_task \<in> set [0, 2]
   \<and> 4 - max_dist small_task \<in> set (evict [0, 2] (4 - max_dist small_task))"
proof -
  have mem: "hd (fst (find_tal_pairs_for_seq small_task))
      \<in> set (fst (find_tal_pairs_for_seq small_task))"
    by code_simp
  have q: "4 - max_dist small_task \<in> set [0, 2]"
    by code_simp
  have b: "create_tal_pair small_task 1 0 4 1 = Inr (hd (fst (find_tal_pairs_for_seq small_task)))"
    by code_simp
  have d: "4 - 0 = max_dist small_task"
    by code_simp
  note main = unfiltered_distance_and_spacer_bounds [OF small_task_def]
  from main mem q b d show ?thesis by blast
qed

subsection \<open>C3: the coordinates of a record\<close>

text \<open>
  C3. For every quadruple \<open>(cut, up_pos, down_pos, spacer_length)\<close> from which
  \<open>_create_tal_pair\<close> builds a record: \<open>tal1_start = up_pos + 1\<close>,
  \<open>tal1_end = cut - spacer_length//2\<close>, \<open>tal2_start = cut + (spacer_length+1)//2 - 1\<close>
  and \<open>tal2_end = down_pos\<close>; the field \<open>TAL1 start\<close> is \<open>tal1_start\<close>, and the
  field \<open>TAL2 start\<close> is \<open>tal2_end - 1\<close>, not \<open>tal2_start\<close>. The two ends
  appear in \<open>Spacer range\<close> and in the lengths of the two slices.
\<close>

theorem record_builder_coordinates:
  assumes "create_tal_pair T cut_site up_pos down_pos spacer_length = Inr r"
  shows "tal1_start up_pos = up_pos + 1
       \<and> tal1_end cut_site spacer_length = cut_site - spacer_length div 2
       \<and> tal2_start cut_site spacer_length = cut_site + (spacer_length + 1) div 2 - 1
       \<and> tal2_end down_pos = down_pos
       \<and> TAL1_start r = tal1_start up_pos
       \<and> TAL2_start r = tal2_end down_pos - 1
       \<and> TAL2_start r = down_pos - 1
       \<and> Cut_Site r = cut_site
       \<and> Spacer_length r = spacer_length
       \<and> Spacer_range r = py_str (tal1_end cut_site spacer_length) @ ''-''
            @ py_str (tal2_start cut_site spacer_length)
       \<and> TAL1_length r = int (length (py_slice (sequence T) (tal1_start up_pos)
            (tal1_end cut_site spacer_length)))
       \<and> TAL2_length r = int (length (py_slice (sequence T)
            (tal2_start cut_site spacer_length) (tal2_end down_pos)))"
  using create_tal_pair_fields [OF assms]
  by (simp add: tal1_start_def tal1_end_def tal2_start_def tal2_end_def)

text \<open>
  The third record of \<open>small_task\<close>, built from \<open>(1, 0, 4, 2)\<close>: its
  \<open>TAL2 start\<close> is 3, while \<open>tal2_start\<close> is 1.
\<close>

theorem record_builder_coordinates_witness:
  "create_tal_pair small_task 1 0 4 2 = Inr (fst (find_tal_pairs_for_seq small_task) ! 2)
   \<and> tal1_start 0 = 0 + 1 \<and> tal1_end 1 2 = 1 - 2 div 2
   \<and> tal2_start 1 2 = 1 + (2 + 1) div 2 - 1 \<and> tal2_end 4 = 4
   \<and> TAL1_start (fst (find_tal_pairs_for_seq small_task) ! 2) = tal1_start 0
   \<and> TAL2_start (fst (find_tal_pairs_for_seq small_task) ! 2) = tal2_end 4 - 1
   \<and> TAL2_start (fst (find_tal_pairs_for_seq small_task) ! 2) \<noteq> tal2_start 1 2"
proof -
  have c: "create_tal_pair small_task 1 0 4 2
      = Inr (fst (find_tal_pairs_for_seq small_task) ! 2)"
    by code_simp
  have n: "TAL2_start (fst (find_tal_pairs_for_seq small_task) ! 2) \<noteq> tal2_start 1 2"
    by code_simp
  from record_builder_coordinates [OF c] c n show ?thesis by simp
qed


subsection \<open>C7: the bases at the two anchors\<close>

text \<open>
  C7. In either mode, every record the generator yields was built from anchors
  \<open>up_pos\<close> and \<open>down_pos\<close> such that, for one of the chosen upstream bases, the
  sequence reads that base at \<open>up_pos\<close> and its complement at \<open>down_pos\<close>, the
  complement pairing \<open>A\<close> with \<open>T\<close> and \<open>C\<close> with \<open>G\<close>.
\<close>

theorem anchors_match_bases:
  "(\<forall>r\<in>set (fst (find_tal_pairs_for_seq T)).
      \<exists>upstream_base downstream_base cut_site up_pos down_pos spacer_length.
        upstream_base \<in> set (upstream_bases T)
      \<and> COMPLEMENT upstream_base = Some downstream_base
      \<and> create_tal_pair T cut_site up_pos down_pos spacer_length = Inr r
      \<and> py_index (sequence T) up_pos = Inr upstream_base
      \<and> py_index (sequence T) down_pos = Inr downstream_base)
   \<and> COMPLEMENT ''A'' = Some ''T'' \<and> COMPLEMENT ''T'' = Some ''A''
   \<and> COMPLEMENT ''C'' = Some ''G'' \<and> COMPLEMENT ''G'' = Some ''C''"
proof (intro conjI ballI)
  fix r assume r: "r \<in> set (fst (find_tal_pairs_for_seq T))"
  show "\<exists>upstream_base downstream_base cut_site up_pos down_pos spacer_length.
        upstream_base \<in> set (upstream_bases T)
      \<and> COMPLEMENT upstream_base = Some downstream_base
      \<and> create_tal_pair T cut_site up_pos down_pos spacer_length = Inr r
      \<and> py_index (sequence T) up_pos = Inr upstream_base
      \<and> py_index (sequence T) down_pos = Inr downstream_base"
  proof (cases "filter_base T")
    case None
    from unfiltered_emitted [OF None r] obtain ub db c t j sl where
      "ub \<in> set (upstream_bases T)" "COMPLEMENT ub = Some db"
      "py_index (sequence T) t = Inr ub" "py_index (sequence T) j = Inr db"
      "create_tal_pair T c t j sl = Inr r"
      by blast
    then show ?thesis
      by (intro exI [of _ ub] exI [of _ db] exI [of _ c] exI [of _ t] exI [of _ j]
            exI [of _ sl]) simp
  next
    case (Some fb)
    from filtered_emitted [OF Some r] obtain ub db up down sl where
      "ub \<in> set (upstream_bases T)" "COMPLEMENT ub = Some db"
      "py_index (sequence T) up = Inr ub" "py_index (sequence T) down = Inr db"
      "create_tal_pair T fb up down sl = Inr r"
      by blast
    then show ?thesis
      by (intro exI [of _ ub] exI [of _ db] exI [of _ fb] exI [of _ up] exI [of _ down]
            exI [of _ sl]) simp
  qed
qed (simp_all add: COMPLEMENT_def)

text \<open>The first record of \<open>small_filtered_task\<close>, with \<open>T\<close> at 0 and \<open>A\<close> at 5.\<close>

theorem anchors_match_bases_witness:
  "hd (fst (find_tal_pairs_for_seq small_filtered_task))
      \<in> set (fst (find_tal_pairs_for_seq small_filtered_task))
   \<and> (\<exists>upstream_base downstream_base cut_site up_pos down_pos spacer_length.
        upstream_base \<in> set (upstream_bases small_filtered_task)
      \<and> COMPLEMENT upstream_base = Some downstream_base
      \<and> create_tal_pair small_filtered_task cut_site up_pos down_pos spacer_length
          = Inr (hd (fst (find_tal_pairs_for_seq small_filtered_task)))
      \<and> py_index (sequence small_filtered_task) up_pos = Inr upstream_base
      \<and> py_index (sequence small_filtered_task) down_pos = Inr downstream_base)
   \<and> create_tal_pair small_filtered_task 3 0 5 1
        = Inr (hd (fst (find_tal_pairs_for_seq small_filtered_task)))
   \<and> py_index (sequence small_filtered_task) 0 = Inr ''T''
   \<and> py_index (sequence small_filtered_task) 5 = Inr ''A''"
proof -
  have mem: "hd (fst (find_tal_pairs_for_seq small_filtered_task))
      \<in> set (fst (find_tal_pairs_for_seq small_filtered_task))"
    by code_simp
  have c: "create_tal_pair small_filtered_task 3 0 5 1
        = Inr (hd (fst (find_tal_pairs_for_seq small_filtered_task)))"
    by code_simp
  have i: "py_index (sequence small_filtered_task) 0 = Inr ''T''"
    "py_index (sequence small_filtered_task) 5 = Inr ''A''"
    by code_simp+
  from anchors_match_bases [of small_filtered_task] mem c i show ?thesis by blast
qed

subsection \<open>C10: the cut loop of an accepted anchor pair\<close>

text \<open>
  C10. In the unfiltered mode an anchor pair \<open>(t, j)\<close> contributes nothing unless
  \<open>j - t \<ge> 2*(min_dist//2) + 1\<close>, because \<open>range(t + min_dist//2, j - min_dist//2)\<close>
  is empty otherwise; with an even \<open>min_dist\<close>, a pair at distance exactly
  \<open>min_dist\<close> contributes nothing. So every yielded record has an anchor distance of at
  least \<open>2*(min_dist//2) + 1\<close>, and never \<open>min_dist\<close> itself when that is even.
\<close>

theorem cut_loop_needs_gap:
  "(j - t < 2 * (min_dist T div 2) + 1 \<longrightarrow> anchor_pair_records T t j = ([], None))
   \<and> (even (min_dist T) \<and> j - t = min_dist T \<longrightarrow> anchor_pair_records T t j = ([], None))
   \<and> (filter_base T = None \<longrightarrow>
        (\<forall>r\<in>set (fst (find_tal_pairs_for_seq T)).
           \<exists>cut_site up_pos down_pos spacer_length.
             create_tal_pair T cut_site up_pos down_pos spacer_length = Inr r
           \<and> 2 * (min_dist T div 2) + 1 \<le> down_pos - up_pos
           \<and> (even (min_dist T) \<longrightarrow> down_pos - up_pos \<noteq> min_dist T)))"
proof (intro conjI impI ballI)
  assume "j - t < 2 * (min_dist T div 2) + 1"
  then show "anchor_pair_records T t j = ([], None)"
    by (intro anchor_pair_records_empty) simp
next
  assume "even (min_dist T) \<and> j - t = min_dist T"
  then have "j - t \<le> 2 * (min_dist T div 2)" by auto
  then show "anchor_pair_records T t j = ([], None)"
    by (rule anchor_pair_records_empty)
next
  fix r assume fb: "filter_base T = None" and r: "r \<in> set (fst (find_tal_pairs_for_seq T))"
  from unfiltered_emitted [OF fb r] obtain c t' j' sl where
    c: "t' + min_dist T div 2 \<le> c" "c < j' - min_dist T div 2"
    and cr: "create_tal_pair T c t' j' sl = Inr r"
    by blast
  from c have gap: "2 * (min_dist T div 2) + 1 \<le> j' - t'" by simp
  have "j' - t' \<noteq> min_dist T" if "even (min_dist T)"
  proof -
    from that have "2 * (min_dist T div 2) = min_dist T" by simp
    with gap show ?thesis by simp
  qed
  with gap cr show "\<exists>cut_site up_pos down_pos spacer_length.
             create_tal_pair T cut_site up_pos down_pos spacer_length = Inr r
           \<and> 2 * (min_dist T div 2) + 1 \<le> down_pos - up_pos
           \<and> (even (min_dist T) \<longrightarrow> down_pos - up_pos \<noteq> min_dist T)"
    by (intro exI [of _ c] exI [of _ t'] exI [of _ j'] exI [of _ sl]) simp
qed

text \<open>
  On \<open>even_task\<close> the pair \<open>(0, 4)\<close> is at distance \<open>min_dist = 4\<close> and passes
  both queue tests, yet nothing is yielded; on \<open>small_task\<close>, with \<open>min_dist = 3\<close>,
  the first record has distance 4.
\<close>

theorem cut_loop_needs_gap_witness:
  "(4 - 0 < 2 * (min_dist even_task div 2) + 1 \<and> even (min_dist even_task)
      \<and> 4 - 0 = min_dist even_task \<and> 0 \<le> 4 - min_dist even_task
      \<and> 4 - max_dist even_task \<le> 0
      \<and> anchor_pair_records even_task 0 4 = ([], None)
      \<and> find_tal_pairs_for_seq even_task = ([], None))
   \<and> (filter_base small_task = None
      \<and> hd (fst (find_tal_pairs_for_seq small_task))
           \<in> set (fst (find_tal_pairs_for_seq small_task))
      \<and> (\<exists>cut_site up_pos down_pos spacer_length.
             create_tal_pair small_task cut_site up_pos down_pos spacer_length
               = Inr (hd (fst (find_tal_pairs_for_seq small_task)))
           \<and> 2 * (min_dist small_task div 2) + 1 \<le> down_pos - up_pos
           \<and> (even (min_dist small_task) \<longrightarrow> down_pos - up_pos \<noteq> min_dist small_task)))"
proof -
  have e: "4 - 0 < 2 * (min_dist even_task div 2) + 1" "even (min_dist even_task)"
    "4 - 0 = min_dist even_task" "0 \<le> 4 - min_dist even_task"
    "4 - max_dist even_task \<le> 0"
    by code_simp+
  have all: "find_tal_pairs_for_seq even_task = ([], None)"
    by code_simp
  have s: "filter_base small_task = None"
    "hd (fst (find_tal_pairs_for_seq small_task))
           \<in> set (fst (find_tal_pairs_for_seq small_task))"
    by code_simp+
  from cut_loop_needs_gap [of 4 0 even_task] e
  have 1: "anchor_pair_records even_task 0 4 = ([], None)" by blast
  from cut_loop_needs_gap [of 4 0 small_task] s
  have 2: "\<exists>cut_site up_pos down_pos spacer_length.
             create_tal_pair small_task cut_site up_pos down_pos spacer_length
               = Inr (hd (fst (find_tal_pairs_for_seq small_task)))
           \<and> 2 * (min_dist small_task div 2) + 1 \<le> down_pos - up_pos
           \<and> (even (min_dist small_task) \<longrightarrow> down_pos - up_pos \<noteq> min_dist small_task)"
    by blast
  from e all s 1 2 show ?thesis by blast
qed

subsection \<open>C6: boundaries with zero candidates\<close>

text \<open>
  C6. A sequence shorter than \<open>min_dist\<close> yields no record, in either mode. In the
  filtered mode, when \<open>filter_base - max_dist//2 < 0\<close> or
  \<open>filter_base + (max_dist+1)//2 + 1 > len(sequence)\<close>, an upstream base of
  \<open>COMPLEMENT\<close> yields no record and raises nothing.
\<close>

theorem zero_candidate_boundaries:
  "(int (length (sequence T)) < min_dist T \<longrightarrow> fst (find_tal_pairs_for_seq T) = [])
   \<and> (filter_base T = Some fb \<and> COMPLEMENT upstream_base = Some downstream_base
        \<and> (fb - max_dist T div 2 < 0
            \<or> fb + (max_dist T + 1) div 2 + 1 > int (length (sequence T)))
      \<longrightarrow> pairs_for_base T upstream_base = ([], None))"
  using no_records_short_sequence guard_skips by blast

text \<open>
  \<open>short_task\<close> has two bases under \<open>min_dist = 3\<close>; \<open>edge_task\<close> is the
  test's sequence with \<open>filter_base = 5\<close>.
\<close>

theorem zero_candidate_boundaries_witness:
  "(int (length (sequence short_task)) < min_dist short_task
      \<and> fst (find_tal_pairs_for_seq short_task) = [])
   \<and> (filter_base edge_task = Some 5 \<and> COMPLEMENT ''T'' = Some ''A''
      \<and> (5 - max_dist edge_task div 2 < 0
          \<or> 5 + (max_dist edge_task + 1) div 2 + 1 > int (length (sequence edge_task)))
      \<and> pairs_for_base edge_task ''T'' = ([], None))"
proof -
  have a: "int (length (sequence short_task)) < min_dist short_task"
    by code_simp
  have b: "filter_base edge_task = Some 5" "COMPLEMENT ''T'' = Some ''A''"
    "5 - max_dist edge_task div 2 < 0"
    by code_simp+
  from zero_candidate_boundaries [of short_task] a
  have 1: "fst (find_tal_pairs_for_seq short_task) = []" by blast
  from zero_candidate_boundaries [of edge_task 5 "''T''" "''A''"] b
  have 2: "pairs_for_base edge_task ''T'' = ([], None)" by blast
  from a b 1 2 show ?thesis by blast
qed

subsection \<open>C4: inverted ranges and unknown bases\<close>

text \<open>
  As stated, C4 fails on two of its three cases. \<open>inverted_array_task\<close> has
  \<open>array_min = 2\<close> above \<open>array_max = 1\<close> and still yields records, the first from
  \<open>(2, 0, 5, 1)\<close>, because its spacer range keeps \<open>min_dist = 5\<close> below
  \<open>max_dist = 6\<close>. \<open>unknown_base_task\<close> has the upstream base \<open>N\<close>, and
  \<open>COMPLEMENT[upstream_base]\<close> raises \<open>KeyError\<close>.
\<close>

theorem inverted_config_counterexample:
  "array_min inverted_array_task > array_max inverted_array_task
   \<and> fst (find_tal_pairs_for_seq inverted_array_task) \<noteq> []
   \<and> create_tal_pair inverted_array_task 2 0 5 1
        = Inr (hd (fst (find_tal_pairs_for_seq inverted_array_task)))
   \<and> upstream_bases unknown_base_task = [''N'']
   \<and> find_tal_pairs_for_seq unknown_base_task = ([], Some (KeyError ''N''))"
  by code_simp

text \<open>
  C4, amended. For a task built by \<open>__init__\<close> and loaded with a sequence: with
  \<open>min_spacer > max_spacer\<close> no record is yielded; with \<open>array_min > array_max\<close> no
  record is yielded when the derived distances are inverted as well
  (\<open>min_dist > max_dist\<close>); and the generator raises nothing when every entry of
  \<open>upstream_bases\<close> is a key of \<open>COMPLEMENT\<close>, and otherwise raises \<open>KeyError\<close>
  for the first entry that is not.
\<close>

theorem inverted_config_outcome:
  assumes "T = load_record (FindTALTask_init fa mins maxs amin amax outp fb ubs) rid rseq"
  shows "(maxs < mins \<longrightarrow> fst (find_tal_pairs_for_seq T) = [])
       \<and> (amax < amin \<and> 2 * amax + maxs < 2 * amin + mins
            \<longrightarrow> fst (find_tal_pairs_for_seq T) = [])
       \<and> snd (find_tal_pairs_for_seq T) =
            (case List.find (\<lambda>upstream_base. COMPLEMENT upstream_base = None) ubs of
               None \<Rightarrow> None
             | Some upstream_base \<Rightarrow> Some (KeyError upstream_base))"
proof (intro conjI impI)
  have md: "min_dist T = 2 * amin + mins" and Md: "max_dist T = 2 * amax + maxs"
    and ms: "min_spacer T = mins" and Ms: "max_spacer T = maxs"
    and ub: "upstream_bases T = ubs"
    unfolding assms by (rule init_fields)+
  show "fst (find_tal_pairs_for_seq T) = []" if "maxs < mins"
    using that by (intro no_records_spacer_inverted) (simp add: ms Ms)
  show "fst (find_tal_pairs_for_seq T) = []"
    if "amax < amin \<and> 2 * amax + maxs < 2 * amin + mins"
    using that by (intro no_records_dist_inverted) (simp add: md Md)
  show "snd (find_tal_pairs_for_seq T) =
            (case List.find (\<lambda>upstream_base. COMPLEMENT upstream_base = None) ubs of
               None \<Rightarrow> None
             | Some upstream_base \<Rightarrow> Some (KeyError upstream_base))"
    using snd_find_tal_pairs [of T] by (simp add: ub)
qed

text \<open>
  \<open>inverted_spacer_task\<close> and \<open>inverted_dist_task\<close>, each with the one upstream
  base \<open>T\<close>: no record and no exception.
\<close>

theorem inverted_config_outcome_witness:
  "((1::int) < 2 \<and> find_tal_pairs_for_seq inverted_spacer_task = ([], None))
   \<and> ((1::int) < 2 \<and> (2::int) * 1 + 1 < 2 * 2 + 1
        \<and> find_tal_pairs_for_seq inverted_dist_task = ([], None))"
proof -
  have f: "List.find (\<lambda>upstream_base. COMPLEMENT upstream_base = None) [''T''] = None"
    by code_simp
  from inverted_config_outcome [OF inverted_spacer_task_def] f
  have 1: "find_tal_pairs_for_seq inverted_spacer_task = ([], None)"
    by (simp add: prod_eq_iff)
  from inverted_config_outcome [OF inverted_dist_task_def] f
  have 2: "find_tal_pairs_for_seq inverted_dist_task = ([], None)"
    by (simp add: prod_eq_iff)
  from 1 2 show ?thesis by simp
qed

subsection \<open>C2: the windows of the filtered mode\<close>

text \<open>
  As stated, C2 fails in its upper distance bound. On \<open>small_filtered_task\<close>
  (\<open>filter_base = 3\<close>, \<open>max_dist = 4\<close>) the first record is built from the anchors 0
  and 5, which lie in the two windows, at distance 5.
\<close>

theorem filtered_distance_counterexample:
  "filter_base small_filtered_task = Some 3
   \<and> hd (fst (find_tal_pairs_for_seq small_filtered_task))
        \<in> set (fst (find_tal_pairs_for_seq small_filtered_task))
   \<and> create_tal_pair small_filtered_task 3 0 5 1
        = Inr (hd (fst (find_tal_pairs_for_seq small_filtered_task)))
   \<and> TAL1_start (hd (fst (find_tal_pairs_for_seq small_filtered_task))) - 1 = 0
   \<and> TAL2_start (hd (fst (find_tal_pairs_for_seq small_filtered_task))) + 1 = 5
   \<and> \<not> (5 - 0 \<le> max_dist small_filtered_task)"
  by code_simp

text \<open>
  C2, amended. For every record yielded with \<open>filter_base\<close> set: the cut site is
  \<open>filter_base\<close>; \<open>up_pos\<close> is an occurrence of the upstream base in
  \<open>[filter_base - max_dist//2 - 1, filter_base - min_dist//2 - 1)\<close> and \<open>down_pos\<close> an
  occurrence of its complement in
  \<open>[filter_base + (min_dist+1)//2, filter_base + (max_dist+1)//2 + 1)\<close>; the spacer length
  lies in \<open>[min_spacer, max_spacer]\<close>; and
  \<open>min_dist \<le> down_pos - up_pos \<le> max_dist + 1\<close>.
\<close>

theorem filtered_window_bounds:
  assumes "filter_base T = Some fb"
  shows "\<forall>r\<in>set (fst (find_tal_pairs_for_seq T)).
           \<exists>upstream_base downstream_base up_pos down_pos spacer_length.
             upstream_base \<in> set (upstream_bases T)
           \<and> COMPLEMENT upstream_base = Some downstream_base
           \<and> create_tal_pair T fb up_pos down_pos spacer_length = Inr r
           \<and> Cut_Site r = fb
           \<and> min_dist T \<le> down_pos - up_pos
           \<and> down_pos - up_pos \<le> max_dist T + 1
           \<and> min_spacer T \<le> spacer_length \<and> spacer_length \<le> max_spacer T
           \<and> up_pos \<in> set (findAll (sequence T) upstream_base
                (fb - max_dist T div 2 - 1) (Some (fb - min_dist T div 2 - 1)))
           \<and> down_pos \<in> set (findAll (sequence T) downstream_base
                (fb + (min_dist T + 1) div 2) (Some (fb + (max_dist T + 1) div 2 + 1)))
           \<and> fb - max_dist T div 2 - 1 \<le> up_pos \<and> up_pos < fb - min_dist T div 2 - 1
           \<and> py_index (sequence T) up_pos = Inr upstream_base
           \<and> fb + (min_dist T + 1) div 2 \<le> down_pos
           \<and> down_pos < fb + (max_dist T + 1) div 2 + 1
           \<and> py_index (sequence T) down_pos = Inr downstream_base"
proof
  fix r assume r: "r \<in> set (fst (find_tal_pairs_for_seq T))"
  from filtered_emitted [OF assms r] obtain ub db up down sl where
    ub: "ub \<in> set (upstream_bases T)" "COMPLEMENT ub = Some db"
    and u: "fb - max_dist T div 2 - 1 \<le> up" "up < fb - min_dist T div 2 - 1"
    and ui: "py_index (sequence T) up = Inr ub"
    and d: "fb + (min_dist T + 1) div 2 \<le> down" "down < fb + (max_dist T + 1) div 2 + 1"
    and di: "py_index (sequence T) down = Inr db"
    and sl: "min_spacer T \<le> sl" "sl \<le> max_spacer T"
    and cr: "create_tal_pair T fb up down sl = Inr r"
    and mem: "up \<in> set (findAll (sequence T) ub
                (fb - max_dist T div 2 - 1) (Some (fb - min_dist T div 2 - 1)))"
      "down \<in> set (findAll (sequence T) db
                (fb + (min_dist T + 1) div 2) (Some (fb + (max_dist T + 1) div 2 + 1)))"
    by blast
  have "min_dist T div 2 + (min_dist T + 1) div 2 = min_dist T" by presburger
  with u(2) d(1) have lo: "min_dist T \<le> down - up" by linarith
  have "max_dist T div 2 + (max_dist T + 1) div 2 = max_dist T" by presburger
  with u(1) d(2) have hi: "down - up \<le> max_dist T + 1" by linarith
  note cs = create_tal_pair_fields(1) [OF cr]
  show "\<exists>upstream_base downstream_base up_pos down_pos spacer_length.
             upstream_base \<in> set (upstream_bases T)
           \<and> COMPLEMENT upstream_base = Some downstream_base
           \<and> create_tal_pair T fb up_pos down_pos spacer_length = Inr r
           \<and> Cut_Site r = fb
           \<and> min_dist T \<le> down_pos - up_pos
           \<and> down_pos - up_pos \<le> max_dist T + 1
           \<and> min_spacer T \<le> spacer_length \<and> spacer_length \<le> max_spacer T
           \<and> up_pos \<in> set (findAll (sequence T) upstream_base
                (fb - max_dist T div 2 - 1) (Some (fb - min_dist T div 2 - 1)))
           \<and> down_pos \<in> set (findAll (sequence T) downstream_base
                (fb + (min_dist T + 1) div 2) (Some (fb + (max_dist T + 1) div 2 + 1)))
           \<and> fb - max_dist T div 2 - 1 \<le> up_pos \<and> up_pos < fb - min_dist T div 2 - 1
           \<and> py_index (sequence T) up_pos = Inr upstream_base
           \<and> fb + (min_dist T + 1) div 2 \<le> down_pos
           \<and> down_pos < fb + (max_dist T + 1) div 2 + 1
           \<and> py_index (sequence T) down_pos = Inr downstream_base"
    using ub cr cs lo hi sl mem u ui d di
    by (intro exI [of _ ub] exI [of _ db] exI [of _ up] exI [of _ down] exI [of _ sl] conjI)
qed

text \<open>The second record of \<open>small_filtered_task\<close>.\<close>

theorem filtered_window_bounds_witness:
  "filter_base small_filtered_task = Some 3
   \<and> fst (find_tal_pairs_for_seq small_filtered_task) ! 1
        \<in> set (fst (find_tal_pairs_for_seq small_filtered_task))
   \<and> (\<exists>upstream_base downstream_base up_pos down_pos spacer_length.
         create_tal_pair small_filtered_task 3 up_pos down_pos spacer_length
           = Inr (fst (find_tal_pairs_for_seq small_filtered_task) ! 1)
       \<and> COMPLEMENT upstream_base = Some downstream_base
       \<and> Cut_Site (fst (find_tal_pairs_for_seq small_filtered_task) ! 1) = 3
       \<and> min_dist small_filtered_task \<le> down_pos - up_pos
       \<and> down_pos - up_pos \<le> max_dist small_filtered_task + 1
       \<and> min_spacer small_filtered_task \<le> spacer_length
       \<and> spacer_length \<le> max_spacer small_filtered_task)"
proof -
  have f: "filter_base small_filtered_task = Some 3"
    by code_simp
  have mem: "fst (find_tal_pairs_for_seq small_filtered_task) ! 1
        \<in> set (fst (find_tal_pairs_for_seq small_filtered_task))"
    by code_simp
  from filtered_window_bounds [OF f] mem f show ?thesis by blast
qed

subsection \<open>C5: the two reported lengths\<close>

text \<open>
  As stated, C5 fails under a well-formed configuration whose spacers are long against
  the arrays. On \<open>small_task\<close> (\<open>array_min = array_max = 1\<close>, spacers 1 to 2) the
  third record is built from \<open>(1, 0, 4, 2)\<close>: \<open>tal1_end - tal1_start = 0 - 1\<close>, and
  \<open>TAL1 length\<close>, the length of the empty slice \<open>sequence[1:0]\<close>, is 0.
\<close>

theorem reported_lengths_counterexample:
  "0 < array_min small_task \<and> array_min small_task \<le> array_max small_task
   \<and> 0 < min_spacer small_task \<and> min_spacer small_task \<le> max_spacer small_task
   \<and> fst (find_tal_pairs_for_seq small_task) ! 2
        \<in> set (fst (find_tal_pairs_for_seq small_task))
   \<and> create_tal_pair small_task 1 0 4 2 = Inr (fst (find_tal_pairs_for_seq small_task) ! 2)
   \<and> TAL1_length (fst (find_tal_pairs_for_seq small_task) ! 2) = 0
   \<and> tal1_end 1 2 - tal1_start 0 = - 1"
  by code_simp

text \<open>
  C5, amended. For a task built by \<open>__init__\<close> with positive \<open>array_min \<le> array_max\<close>
  and \<open>min_spacer \<le> max_spacer\<close>, and with \<open>max_spacer//2 < array_min + min_spacer//2\<close>
  (half the longest spacer fits in \<open>min_dist//2\<close>), every yielded record of either mode
  has \<open>TAL1 length = tal1_end - tal1_start\<close> and \<open>TAL2 length = tal2_end - tal2_start\<close>,
  both at least 0.
\<close>

theorem reported_lengths:
  assumes T: "T = load_record (FindTALTask_init fa mins maxs amin amax outp fb ubs) rid rseq"
    and pos: "0 < amin" "0 < mins"
    and wf: "amin \<le> amax" "mins \<le> maxs"
    and room: "maxs div 2 < amin + mins div 2"
  shows "\<forall>r\<in>set (fst (find_tal_pairs_for_seq T)).
           \<exists>cut_site up_pos down_pos spacer_length.
             create_tal_pair T cut_site up_pos down_pos spacer_length = Inr r
           \<and> TAL1_length r = tal1_end cut_site spacer_length - tal1_start up_pos
           \<and> TAL2_length r = tal2_end down_pos - tal2_start cut_site spacer_length
           \<and> 0 \<le> tal1_end cut_site spacer_length - tal1_start up_pos
           \<and> 0 \<le> tal2_end down_pos - tal2_start cut_site spacer_length"
proof
  fix r assume r: "r \<in> set (fst (find_tal_pairs_for_seq T))"
  have md: "min_dist T = 2 * amin + mins" and ms: "min_spacer T = mins"
    and Ms: "max_spacer T = maxs" and fbT: "filter_base T = fb"
    unfolding T by (rule init_fields)+
  define h where "h = amin + mins div 2"
  have h: "min_dist T div 2 = h" unfolding md h_def by (rule half_even_plus)
  have h': "h \<le> (min_dist T + 1) div 2"
    using half_le_half_succ [of "min_dist T"] h by simp
  from room have room': "maxs div 2 + 1 \<le> h" by (simp add: h_def)
  have "\<exists>c up down sl. create_tal_pair T c up down sl = Inr r
      \<and> 0 \<le> up \<and> up + 1 \<le> c - sl div 2 \<and> c - sl div 2 \<le> int (length (sequence T))
      \<and> 0 \<le> c + (sl + 1) div 2 - 1 \<and> c + (sl + 1) div 2 - 1 \<le> down
      \<and> down \<le> int (length (sequence T))"
  proof (cases fb)
    case None
    with fbT have "filter_base T = None" by simp
    from unfiltered_emitted [OF this r] obtain c t j sl where
      t: "0 \<le> t" and j: "j < int (length (sequence T))"
      and sl: "min_spacer T \<le> sl" "sl \<le> max_spacer T"
      and c: "t + min_dist T div 2 \<le> c" "c < j - min_dist T div 2"
      and cr: "create_tal_pair T c t j sl = Inr r"
      by blast
    from sl pos(2) have slpos: "0 < sl" by (simp add: ms)
    from sl(2) have s1: "sl div 2 \<le> maxs div 2" unfolding Ms by (rule half_mono)
    from half_pos [OF slpos] have s2: "0 \<le> sl div 2" "1 \<le> (sl + 1) div 2" by simp_all
    note s3 = half_succ [of sl]
    from c have c': "t + h \<le> c" "c < j - h" by (simp_all add: h)
    have "t + 1 \<le> c - sl div 2" using c'(1) s1 room' by linarith
    moreover have "c - sl div 2 \<le> int (length (sequence T))"
      using c'(2) j s2(1) room' s1 by linarith
    moreover have "0 \<le> c + (sl + 1) div 2 - 1" using c'(1) t s2(2) room' s1 s2(1) by linarith
    moreover have "c + (sl + 1) div 2 - 1 \<le> j" using c'(2) s3 s1 room' by linarith
    moreover have "j \<le> int (length (sequence T))" using j by simp
    ultimately show ?thesis using cr t
      by (intro exI [of _ c] exI [of _ t] exI [of _ j] exI [of _ sl]) simp
  next
    case (Some b)
    with fbT have fb: "filter_base T = Some b" by simp
    from filtered_emitted [OF fb r] obtain ub db up down sl where
      cm: "COMPLEMENT ub = Some db"
      and g: "0 \<le> b - max_dist T div 2"
        "b + (max_dist T + 1) div 2 + 1 \<le> int (length (sequence T))"
      and u: "up < b - min_dist T div 2 - 1"
      and d: "b + (min_dist T + 1) div 2 \<le> down" "down < b + (max_dist T + 1) div 2 + 1"
      and sl: "min_spacer T \<le> sl" "sl \<le> max_spacer T"
      and cr: "create_tal_pair T b up down sl = Inr r"
      and mem: "up \<in> set (findAll (sequence T) ub
                (b - max_dist T div 2 - 1) (Some (b - min_dist T div 2 - 1)))"
      by blast
    from COMPLEMENT_single [OF cm] obtain ch where ch: "ub = [ch]" by blast
    from g(1) have "- 1 \<le> b - max_dist T div 2 - 1" by simp
    with mem have up0: "0 \<le> up" unfolding ch by (rule findAll_nonneg)
    from sl pos(2) have slpos: "0 < sl" by (simp add: ms)
    from sl(2) have s1: "sl div 2 \<le> maxs div 2" unfolding Ms by (rule half_mono)
    from half_pos [OF slpos] have s2: "0 \<le> sl div 2" "1 \<le> (sl + 1) div 2" by simp_all
    note s3 = half_succ [of sl]
    from u have u': "up < b - h - 1" by (simp add: h)
    from d(1) h' have d': "b + h \<le> down" by linarith
    have "up + 1 \<le> b - sl div 2" using u' s1 room' by linarith
    moreover have "b - sl div 2 \<le> int (length (sequence T))"
      using d' d(2) g(2) s2(1) room' s1 by linarith
    moreover have "0 \<le> b + (sl + 1) div 2 - 1" using u' up0 s2 room' s1 by linarith
    moreover have "b + (sl + 1) div 2 - 1 \<le> down" using d' s3 s1 room' by linarith
    moreover have "down \<le> int (length (sequence T))" using d(2) g(2) by linarith
    ultimately show ?thesis using cr up0
      by (intro exI [of _ b] exI [of _ up] exI [of _ down] exI [of _ sl]) simp
  qed
  then obtain c up down sl where cr: "create_tal_pair T c up down sl = Inr r"
    and b: "0 \<le> up" "up + 1 \<le> c - sl div 2" "c - sl div 2 \<le> int (length (sequence T))"
      "0 \<le> c + (sl + 1) div 2 - 1" "c + (sl + 1) div 2 - 1 \<le> down"
      "down \<le> int (length (sequence T))"
    by blast
  from lengths_from_quadruple [OF cr b] cr
  show "\<exists>cut_site up_pos down_pos spacer_length.
             create_tal_pair T cut_site up_pos down_pos spacer_length = Inr r
           \<and> TAL1_length r = tal1_end cut_site spacer_length - tal1_start up_pos
           \<and> TAL2_length r = tal2_end down_pos - tal2_start cut_site spacer_length
           \<and> 0 \<le> tal1_end cut_site spacer_length - tal1_start up_pos
           \<and> 0 \<le> tal2_end down_pos - tal2_start cut_site spacer_length"
    by blast
qed

text \<open>
  \<open>wide_task\<close>: \<open>array_min = 2\<close>, spacers 2 to 3, and \<open>3//2 < 2 + 2//2\<close>.
\<close>

theorem reported_lengths_witness:
  "(0::int) < 2 \<and> (2::int) \<le> 2 \<and> (2::int) \<le> 3 \<and> (3::int) div 2 < 2 + 2 div 2
   \<and> hd (fst (find_tal_pairs_for_seq wide_task)) \<in> set (fst (find_tal_pairs_for_seq wide_task))
   \<and> (\<exists>cut_site up_pos down_pos spacer_length.
         create_tal_pair wide_task cut_site up_pos down_pos spacer_length
           = Inr (hd (fst (find_tal_pairs_for_seq wide_task)))
       \<and> TAL1_length (hd (fst (find_tal_pairs_for_seq wide_task)))
           = tal1_end cut_site spacer_length - tal1_start up_pos
       \<and> TAL2_length (hd (fst (find_tal_pairs_for_seq wide_task)))
           = tal2_end down_pos - tal2_start cut_site spacer_length
       \<and> 0 \<le> tal1_end cut_site spacer_length - tal1_start up_pos
       \<and> 0 \<le> tal2_end down_pos - tal2_start cut_site spacer_length)"
proof -
  have mem: "hd (fst (find_tal_pairs_for_seq wide_task))
      \<in> set (fst (find_tal_pairs_for_seq wide_task))"
    by code_simp
  have a: "(0::int) < 2" "(2::int) \<le> 2" "(2::int) \<le> 3" "(3::int) div 2 < 2 + 2 div 2"
    by simp_all
  from reported_lengths [OF wide_task_def a(1) a(1) a(2) a(3) a(4)] mem a
  show ?thesis by blast
qed

subsection \<open>C8: two runs of the enumeration\<close>

text \<open>
  C8. Run from any state of the interpreter, whatever the deque was left holding, the
  generator yields exactly what \<open>find_tal_pairs_for_seq\<close> gives for the sequence and
  the configuration read in that state, and it leaves every list object and every
  attribute of the task as they were. So a second run, started in the state the first one
  left, yields the same records in the same order and ends the same way; and so does a run
  on a second task created for the same configuration and sequence, with other paths,
  that refers to the same list of upstream bases (the shared default, or a list passed to
  both). The attributes read in a state are those \<open>__init__\<close> and lines 152-153
  stored, with the present contents of that list.
\<close>

theorem two_runs_yield_same_records:
  "fst (find_tal_pairs_st (snd (find_tal_pairs_st \<sigma>))) = fst (find_tal_pairs_st \<sigma>)
   \<and> fst (find_tal_pairs_st \<sigma>) = find_tal_pairs_for_seq (self_view \<sigma>)
   \<and> list_objects (snd (find_tal_pairs_st \<sigma>)) = list_objects \<sigma>
   \<and> self_object (snd (find_tal_pairs_st \<sigma>)) = self_object \<sigma>
   \<and> fst (find_tal_pairs_st
        ((snd (find_tal_pairs_st
           \<lparr> list_objects = h,
             self_object =
               assign_record (FindTALTask_new fa mins maxs amin amax outp fb ubs) rid rseq,
             frame_upstream_q = q \<rparr>))
         \<lparr> self_object :=
             assign_record (FindTALTask_new fa' mins maxs amin amax outp' fb ubs) rid rseq \<rparr>))
     = fst (find_tal_pairs_st
           \<lparr> list_objects = h,
             self_object =
               assign_record (FindTALTask_new fa mins maxs amin amax outp fb ubs) rid rseq,
             frame_upstream_q = q \<rparr>)
   \<and> self_view
        \<lparr> list_objects = h,
          self_object =
            assign_record (FindTALTask_new fa mins maxs amin amax outp fb ubs) rid rseq,
          frame_upstream_q = q \<rparr>
     = load_record (FindTALTask_init fa mins maxs amin amax outp fb
         (h (case ubs of None \<Rightarrow> default_upstream_bases | Some a \<Rightarrow> a))) rid rseq"
proof (intro conjI)
  let ?s = "snd (find_tal_pairs_st \<sigma>)"
  from find_tal_pairs_st_refines [of \<sigma>]
  have f: "fst (find_tal_pairs_st \<sigma>) = find_tal_pairs_for_seq (self_view \<sigma>)"
    and k: "list_objects ?s = list_objects \<sigma>" "self_object ?s = self_object \<sigma>"
    by simp_all
  show "fst (find_tal_pairs_st \<sigma>) = find_tal_pairs_for_seq (self_view \<sigma>)" by (rule f)
  show "list_objects ?s = list_objects \<sigma>" by (rule k(1))
  show "self_object ?s = self_object \<sigma>" by (rule k(2))
  from find_tal_pairs_st_refines [of ?s]
  have "fst (find_tal_pairs_st ?s) = find_tal_pairs_for_seq (self_view ?s)" by simp
  also have "self_view ?s = self_view \<sigma>" using k by (rule self_view_same)
  finally show "fst (find_tal_pairs_st ?s) = fst (find_tal_pairs_st \<sigma>)" by (simp add: f)
next
  let ?a = "\<lparr> list_objects = h,
             self_object =
               assign_record (FindTALTask_new fa mins maxs amin amax outp fb ubs) rid rseq,
             frame_upstream_q = q \<rparr>"
  let ?ob = "assign_record (FindTALTask_new fa' mins maxs amin amax outp' fb ubs) rid rseq"
  let ?b = "(snd (find_tal_pairs_st ?a)) \<lparr> self_object := ?ob \<rparr>"
  from find_tal_pairs_st_refines [of ?a]
  have fa: "fst (find_tal_pairs_st ?a) = find_tal_pairs_for_seq (self_view ?a)"
    and h: "list_objects (snd (find_tal_pairs_st ?a)) = h"
    by simp_all
  have vb: "self_view ?b
      = load_record (FindTALTask_init fa' mins maxs amin amax outp' fb
         (h (case ubs of None \<Rightarrow> default_upstream_bases | Some a \<Rightarrow> a))) rid rseq"
  proof -
    have "list_objects ?b = list_objects \<lparr> list_objects = h, self_object = ?ob,
        frame_upstream_q = q \<rparr>"
      using h by simp
    moreover have "self_object ?b = self_object \<lparr> list_objects = h, self_object = ?ob,
        frame_upstream_q = q \<rparr>"
      by simp
    ultimately have "self_view ?b = self_view \<lparr> list_objects = h, self_object = ?ob,
        frame_upstream_q = q \<rparr>"
      by (rule self_view_same)
    then show ?thesis by (simp only: self_view_new)
  qed
  from find_tal_pairs_st_refines [of ?b]
  have "fst (find_tal_pairs_st ?b) = find_tal_pairs_for_seq (self_view ?b)" by simp
  also have "\<dots> = find_tal_pairs_for_seq (self_view ?a)"
    unfolding vb self_view_new
    by (rule find_tal_pairs_reads) (simp_all add: load_record_def FindTALTask_init_def)
  finally show "fst (find_tal_pairs_st ?b) = fst (find_tal_pairs_st ?a)" by (simp add: fa)
next
  show "self_view
        \<lparr> list_objects = h,
          self_object =
            assign_record (FindTALTask_new fa mins maxs amin amax outp fb ubs) rid rseq,
          frame_upstream_q = q \<rparr>
     = load_record (FindTALTask_init fa mins maxs amin amax outp fb
         (h (case ubs of None \<Rightarrow> default_upstream_bases | Some a \<Rightarrow> a))) rid rseq"
    by (rule self_view_new)
qed

text \<open>
  \<open>small_state\<close>: the deque holds \<open>[0, 3]\<close> before the run and \<open>[0]\<close> after it; both
  runs yield the four records of \<open>small_task\<close>.
\<close>

theorem two_runs_yield_same_records_witness:
  "frame_upstream_q small_state = [0, 3]
   \<and> self_view small_state = small_task
   \<and> length (fst (fst (find_tal_pairs_st small_state))) = 4
   \<and> frame_upstream_q (snd (find_tal_pairs_st small_state)) = [0]
   \<and> fst (find_tal_pairs_st small_state) = find_tal_pairs_for_seq small_task
   \<and> fst (find_tal_pairs_st (snd (find_tal_pairs_st small_state)))
        = fst (find_tal_pairs_st small_state)"
proof -
  have a: "frame_upstream_q small_state = [0, 3]"
    by code_simp
  have b: "self_view small_state = small_task"
    by code_simp
  have c: "length (fst (fst (find_tal_pairs_st small_state))) = 4"
    by code_simp
  have d: "frame_upstream_q (snd (find_tal_pairs_st small_state)) = [0]"
    by code_simp
  from two_runs_yield_same_records [of small_state] a b c d show ?thesis by simp
qed

subsection \<open>C9: \<open>run\<close> never returns\<close>

text \<open>
  C9. \<open>logger\<close> is bound neither in \<open>run\<close> nor at the top level of \<open>api.py\<close>,
  and it is no builtin. So \<open>run\<close> raises whatever it finds at the path: with no file,
  \<open>FileNotFoundError\<close>; with a first record parsed, the \<open>NameError\<close> of line 144,
  re-raised by the handler of line 148 as \<open>Exception('Error reading FASTA file: ...')\<close>.
  It never returns a data frame and never reaches the generator or the output file
  (the repository's two tests expect a data frame).
\<close>

theorem run_always_raises:
  assumes "''logger'' \<notin> set builtins"
  shows "(\<exists>e. run builtins found T = Inl e)
       \<and> run builtins Missing T = Inl (FileNotFoundError (''FASTA file not found: '' @ fasta T))
       \<and> run builtins (FirstRecord rid rseq) T
            = Inl (Exception ''Error reading FASTA file: name 'logger' is not defined'')"
proof -
  from assms have n: "\<not> name_defined builtins ''logger''"
    by (simp add: name_defined_def run_locals_def module_names_def)
  have 1: "\<exists>e. run builtins found T = Inl e"
    using n by (cases found) (simp_all add: run_def)
  have 2: "run builtins Missing T = Inl (FileNotFoundError (''FASTA file not found: '' @ fasta T))"
    by (simp add: run_def)
  have 3: "run builtins (FirstRecord rid rseq) T
            = Inl (Exception ''Error reading FASTA file: name 'logger' is not defined'')"
    using n by (simp add: run_def)
  from 1 2 3 show ?thesis by blast
qed

text \<open>
  The task and the record of the repository's first test, with the builtins that
  \<open>run\<close> names.
\<close>

theorem run_always_raises_witness:
  "''logger'' \<notin> set [''open'', ''next'', ''len'', ''str'', ''Exception'', ''FileNotFoundError'']
   \<and> run [''open'', ''next'', ''len'', ''str'', ''Exception'', ''FileNotFoundError'']
        (FirstRecord ''test_10400_T''
           (replicate 20 CHR ''T'' @ replicate 21 CHR ''C'' @ replicate 20 CHR ''A''))
        (FindTALTask_init ''sample.fasta'' 14 18 14 18 (Some ''out.txt'') (Some 31) [''T''])
      = Inl (Exception ''Error reading FASTA file: name 'logger' is not defined'')"
proof -
  have b: "''logger''
      \<notin> set [''open'', ''next'', ''len'', ''str'', ''Exception'', ''FileNotFoundError'']"
    by simp
  from run_always_raises [OF b] b show ?thesis by blast
qed

end
